theory Spec2Isabelle
  imports Complex_Main "HOL-Library.Word" "HOL-Library.Signed_Division" "HOL-Library.Char_ord"
begin

unbundle bit_operations_syntax

section \<open>Errors\<close>

text \<open>
  The Go code reports every failure as an \<open>error\<close> value built from a message. Each
  constructor below stands for one message of \<open>math.go\<close> or of the money evaluator, and
  carries the text the message quotes. \<open>IndexOutOfRange\<close> stands for the run-time panic
  of a slice read past its end.
\<close>

datatype error =
    InvalidNumberNear string
  | InvalidExponentNear string
  | FailedToParseNumber string
  | UnexpectedCharacter string
  | FunctionMustBeCalled string
  | CommaOutsideArguments
  | MismatchedParentheses
  | FunctionCallMissingName
  | FunctionCallMissingParentheses
  | NotEnoughOperands
  | InvalidArgumentCount
  | ExpectsOneArgument string
  | ExpectsAtLeastTwoArguments string
  | ExpectsTwoArguments string
  | UnknownFunction string
  | UnknownOperator string
  | UnexpectedTokenInRPN
  | ExtraValues
  | NonNumericLiteral string
  | FunctionNotSupported string
  | OperatorNotSupported string
  | OverflowAbs
  | OverflowNegate
  | EmptyNumber
  | ExponentNotSupported string
  | InvalidMoneyNumber string
  | TooManyDecimalPlaces string
  | InvalidMoneyNumberParse string
  | MoneyValueOverflow string
  | OverflowAdd
  | OverflowSub
  | OverflowMul
  | DivisionByZero
  | IndexOutOfRange

section \<open>Tokens\<close>

datatype TokenType = TNumber | TOp | TFunc | TComma | TLParen | TRParen

text \<open>
  \<open>Value\<close> is a \<open>float64\<close> in the source. The type of floating-point values is the
  parameter \<open>'f\<close> of the model; the operations on it are collected in \<open>float_ops\<close>.
\<close>

record 'f Token =
  Typ :: TokenType
  Text :: string
  Value :: 'f
  Arity :: int

section \<open>Floating point as a parameter\<close>

text \<open>
  The float evaluator calls the hardware operations on \<open>float64\<close>, Go's \<open>math\<close> package
  and \<open>strconv.ParseFloat\<close>. None of them is code of this repository, so the model takes
  them as a record of operations. \<open>ParseFloat\<close> yields \<open>None\<close> where Go returns an error.
  \<open>flt a b\<close> is the comparison \<open>a < b\<close>; Go's \<open>a > b\<close> is \<open>flt b a\<close>.
\<close>

record 'f float_ops =
  fzero :: 'f
  fhundred :: 'f
  fadd :: "'f \<Rightarrow> 'f \<Rightarrow> 'f"
  fsub :: "'f \<Rightarrow> 'f \<Rightarrow> 'f"
  fmul :: "'f \<Rightarrow> 'f \<Rightarrow> 'f"
  fdiv :: "'f \<Rightarrow> 'f \<Rightarrow> 'f"
  fneg :: "'f \<Rightarrow> 'f"
  flt :: "'f \<Rightarrow> 'f \<Rightarrow> bool"
  ParseFloat :: "string \<Rightarrow> 'f option"
  Pi :: 'f
  E :: 'f
  Sin :: "'f \<Rightarrow> 'f"
  Cos :: "'f \<Rightarrow> 'f"
  Tan :: "'f \<Rightarrow> 'f"
  Asin :: "'f \<Rightarrow> 'f"
  Acos :: "'f \<Rightarrow> 'f"
  Atan :: "'f \<Rightarrow> 'f"
  Sqrt :: "'f \<Rightarrow> 'f"
  Abs :: "'f \<Rightarrow> 'f"
  Log :: "'f \<Rightarrow> 'f"
  Log10 :: "'f \<Rightarrow> 'f"
  Exp :: "'f \<Rightarrow> 'f"
  Floor :: "'f \<Rightarrow> 'f"
  Ceil :: "'f \<Rightarrow> 'f"
  Round :: "'f \<Rightarrow> 'f"
  Pow :: "'f \<Rightarrow> 'f \<Rightarrow> 'f"
  Atan2 :: "'f \<Rightarrow> 'f \<Rightarrow> 'f"

section \<open>The lexer (\<open>tokenize\<close>)\<close>

text \<open>A Go string is a sequence of bytes; \<open>char\<close> is a byte, ordered by its code.\<close>

definition isOpByte :: "char \<Rightarrow> bool" where
  "isOpByte b \<longleftrightarrow> b = CHR ''+'' \<or> b = CHR ''-'' \<or> b = CHR ''*'' \<or> b = CHR ''/''
     \<or> b = CHR ''^'' \<or> b = CHR ''%''"

definition isIdentStart :: "char \<Rightarrow> bool" where
  "isIdentStart b \<longleftrightarrow> (CHR ''a'' \<le> b \<and> b \<le> CHR ''z'') \<or> (CHR ''A'' \<le> b \<and> b \<le> CHR ''Z'')
     \<or> b = CHR ''_''"

definition isDigit :: "char \<Rightarrow> bool" where
  "isDigit c \<longleftrightarrow> CHR ''0'' \<le> c \<and> c \<le> CHR ''9''"

definition isIdentContinue :: "char \<Rightarrow> bool" where
  "isIdentContinue b \<longleftrightarrow> isIdentStart b \<or> isDigit b"

text \<open>\<open>isNumStart(s, i)\<close>, on the suffix of \<open>s\<close> that starts at \<open>i\<close>.\<close>

fun isNumStart :: "string \<Rightarrow> bool" where
  "isNumStart [] = False"
| "isNumStart (c # cs) =
     (if isDigit c then True
      else if c = CHR ''.'' \<and> cs \<noteq> [] \<and> isDigit (hd cs) then True
      else False)"

text \<open>
  \<open>unicode.IsSpace(rune(s[i]))\<close>: the argument is one byte, so a code point below 256.
  In that range Go's \<open>IsSpace\<close> holds for tab, line feed, vertical tab, form feed,
  carriage return, space, U+0085 and U+00A0.
\<close>

definition IsSpace :: "char \<Rightarrow> bool" where
  "IsSpace r \<longleftrightarrow> (of_char r :: nat) \<in> {9, 10, 11, 12, 13, 32, 133, 160}"

text \<open>
  \<open>strings.ToLower\<close> on an identifier: the bytes of an identifier are ASCII, where it
  maps \<open>A..Z\<close> to \<open>a..z\<close> and leaves the rest.
\<close>

definition lower_byte :: "char \<Rightarrow> char" where
  "lower_byte c = (if CHR ''A'' \<le> c \<and> c \<le> CHR ''Z'' then char_of (of_char c + (32::nat)) else c)"

definition ToLower :: "string \<Rightarrow> string" where
  "ToLower s = map lower_byte s"

text \<open>The table \<open>constants\<close>.\<close>

definition constants :: "'f float_ops \<Rightarrow> string \<Rightarrow> 'f option" where
  "constants ops = [''pi'' \<mapsto> Pi ops, ''e'' \<mapsto> E ops]"

text \<open>
  The inner loop of \<open>tokenize\<close> that scans a number. \<open>acc\<close> is \<open>s[start:i]\<close>, the last
  argument is \<open>s[i:]\<close>. The result is the text of the number and the rest of the input.
\<close>

fun scan_number :: "string \<Rightarrow> nat \<Rightarrow> bool \<Rightarrow> string \<Rightarrow> error + (string \<times> string)" where
  "scan_number acc dotCount hasDigits [] = Inr (acc, [])"
| "scan_number acc dotCount hasDigits (c # cs) =
     (if c = CHR ''.'' then
        (if dotCount + 1 > 1 then Inl (InvalidNumberNear (acc @ [c]))
         else scan_number (acc @ [c]) (dotCount + 1) hasDigits cs)
      else if isDigit c then scan_number (acc @ [c]) dotCount True cs
      else if (c = CHR ''e'' \<or> c = CHR ''E'') \<and> hasDigits then
        (let sign = (if cs \<noteq> [] \<and> (hd cs = CHR ''+'' \<or> hd cs = CHR ''-'') then [hd cs] else []);
             cs1 = drop (length sign) cs;
             digs = takeWhile isDigit cs1
         in if digs = [] then Inl (InvalidExponentNear (acc @ [c] @ sign))
            else Inr (acc @ [c] @ sign @ digs, dropWhile isDigit cs1))
      else Inr (acc, c # cs))"

definition mk_token :: "'f float_ops \<Rightarrow> TokenType \<Rightarrow> string \<Rightarrow> 'f Token" where
  "mk_token ops ty txt = \<lparr>Typ = ty, Text = txt, Value = fzero ops, Arity = 0\<rparr>"

lemma scan_number_rest:
  "scan_number acc dc hasD s = Inr (txt, rest) \<Longrightarrow> length rest \<le> length s"
proof (induction acc dc hasD s rule: scan_number.induct)
  case (1 acc dotCount hasDigits)
  then show ?case by simp
next
  case (2 acc dotCount hasDigits c cs)
  have "length (dropWhile isDigit (drop k cs)) \<le> length cs" for k
    by (rule order_trans [OF length_dropWhile_le]) simp
  with 2 show ?case
    by (auto simp: Let_def length_dropWhile_le le_SucI split: if_splits)
qed

lemma scan_number_consumes:
  "isNumStart s \<Longrightarrow> scan_number [] 0 False s = Inr (txt, rest) \<Longrightarrow> length rest < length s"
  by (cases s) (auto simp: less_Suc_eq_le split: if_splits dest: scan_number_rest)

function tokenize_loop :: "'f float_ops \<Rightarrow> 'f Token list \<Rightarrow> string \<Rightarrow> error + 'f Token list" where
  "tokenize_loop ops tokens [] = Inr tokens"
| "tokenize_loop ops tokens (c # cs) =
     (if IsSpace c then tokenize_loop ops tokens cs
      else if c = CHR '','' then tokenize_loop ops (tokens @ [mk_token ops TComma '','']) cs
      else if c = CHR ''('' then tokenize_loop ops (tokens @ [mk_token ops TLParen ''('']) cs
      else if c = CHR '')'' then tokenize_loop ops (tokens @ [mk_token ops TRParen '')'']) cs
      else if isOpByte c then tokenize_loop ops (tokens @ [mk_token ops TOp [c]]) cs
      else if isIdentStart c then
        (let name = ToLower (c # takeWhile isIdentContinue cs) in
         case constants ops name of
           Some val \<Rightarrow>
             tokenize_loop ops (tokens @ [(mk_token ops TNumber name)\<lparr>Value := val\<rparr>])
               (dropWhile isIdentContinue cs)
         | None \<Rightarrow>
             tokenize_loop ops (tokens @ [mk_token ops TFunc name]) (dropWhile isIdentContinue cs))
      else if isNumStart (c # cs) then
        (case scan_number [] 0 False (c # cs) of
           Inl err \<Rightarrow> Inl err
         | Inr (txt, rest) \<Rightarrow>
             (case ParseFloat ops txt of
                None \<Rightarrow> Inl (FailedToParseNumber txt)
              | Some val \<Rightarrow>
                  tokenize_loop ops (tokens @ [(mk_token ops TNumber txt)\<lparr>Value := val\<rparr>]) rest))
      else Inl (UnexpectedCharacter [c]))"
  by pat_completeness auto
termination
proof (relation "measure (\<lambda>(ops, tokens, s). length s)", goal_cases)
  case (9 ops tokens c cs x2 x y val)
  then show ?case using scan_number_consumes [of "c # cs" x y] by simp
qed (auto simp: less_Suc_eq_le length_dropWhile_le)

definition tokenize :: "'f float_ops \<Rightarrow> string \<Rightarrow> error + 'f Token list" where
  "tokenize ops s = tokenize_loop ops [] s"


section \<open>The parser (\<open>toRPN\<close>)\<close>

definition precedence :: "string \<Rightarrow> int" where
  "precedence op =
     (if op = ''NEG'' then 4
      else if op = ''POS'' then 4
      else if op = ''^'' then 3
      else if op = ''*'' \<or> op = ''/'' \<or> op = ''%'' then 2
      else if op = ''+'' \<or> op = ''-'' then 1
      else 0)"

definition rightAssociative :: "string \<Rightarrow> bool" where
  "rightAssociative op \<longleftrightarrow> op = ''^'' \<or> op = ''NEG'' \<or> op = ''POS''"

text \<open>The loop of the \<open>TComma\<close> case: pop to the output until a left parenthesis is on top.\<close>

fun comma_pop :: "'f Token list \<Rightarrow> 'f Token list \<Rightarrow> bool \<times> 'f Token list \<times> 'f Token list" where
  "comma_pop [] out = (False, [], out)"
| "comma_pop (tp # rest) out =
     (if Typ tp = TLParen then (True, tp # rest, out)
      else comma_pop rest (out @ [tp]))"

text \<open>The loop of the \<open>TRParen\<close> case: pop to the output until a left parenthesis is popped.\<close>

fun rparen_pop :: "'f Token list \<Rightarrow> 'f Token list \<Rightarrow> bool \<times> 'f Token list \<times> 'f Token list" where
  "rparen_pop [] out = (False, [], out)"
| "rparen_pop (tp # rest) out =
     (if Typ tp = TLParen then (True, rest, out)
      else rparen_pop rest (out @ [tp]))"

text \<open>The loop of the \<open>TOp\<close> case, for the operator token \<open>t\<close> (already rewritten).\<close>

fun op_pop :: "'f Token \<Rightarrow> 'f Token list \<Rightarrow> 'f Token list \<Rightarrow> 'f Token list \<times> 'f Token list" where
  "op_pop t [] out = ([], out)"
| "op_pop t (tp # rest) out =
     (if Typ tp \<noteq> TOp then (tp # rest, out)
      else let p1 = precedence (Text t); p2 = precedence (Text tp) in
        if (rightAssociative (Text t) \<and> p1 < p2) \<or> (\<not> rightAssociative (Text t) \<and> p1 \<le> p2)
        then op_pop t rest (out @ [tp])
        else (tp # rest, out))"

text \<open>The rewriting of a sign at the head of the \<open>TOp\<close> case.\<close>

definition is_unary_position :: "'f Token option \<Rightarrow> bool" where
  "is_unary_position pv \<longleftrightarrow>
     (case pv of
        None \<Rightarrow> True
      | Some p \<Rightarrow> Typ p = TOp \<or> Typ p = TLParen \<or> Typ p = TComma)"

definition unary_rewrite :: "'f Token option \<Rightarrow> 'f Token \<Rightarrow> 'f Token" where
  "unary_rewrite pv t =
     (if (Text t = ''-'' \<or> Text t = ''+'') \<and> is_unary_position pv
      then t\<lparr>Text := (if Text t = ''-'' then ''NEG'' else ''POS'')\<rparr>
      else t)"

text \<open>The loop after the tokens are consumed.\<close>

fun drain :: "'f Token list \<Rightarrow> 'f Token list \<Rightarrow> error + 'f Token list" where
  "drain [] out = Inr out"
| "drain (tp # rest) out =
     (if Typ tp = TLParen \<or> Typ tp = TRParen then Inl MismatchedParentheses
      else if Typ tp = TFunc then Inl FunctionCallMissingParentheses
      else drain rest (out @ [tp]))"

text \<open>
  The state of the loop of \<open>toRPN\<close>. The slices \<open>stack\<close>, \<open>funcParen\<close> and \<open>argCount\<close>
  are used as stacks; the model keeps the top of each at the head of the list. \<open>out\<close>
  is in output order. \<open>prev\<close> is the pointer to the previous token, \<open>None\<close> for nil.
\<close>

record 'f rpn_state =
  out :: "'f Token list"
  stack :: "'f Token list"
  prev :: "'f Token option"
  funcParen :: "bool list"
  argCount :: "int list"

text \<open>
  One iteration of the main loop, for token \<open>t\<close> followed by the tokens \<open>ts\<close>, one
  definition for each case of the \<open>switch\<close>; the assignment to \<open>prev\<close> that ends the
  iteration is in \<open>toRPN_loop\<close>. \<open>TokenType\<close> has no value beyond the six constants, so
  the \<open>default\<close> branch has no counterpart.
\<close>

definition step_TFunc :: "'f rpn_state \<Rightarrow> 'f Token \<Rightarrow> 'f Token list \<Rightarrow> error + 'f rpn_state" where
  "step_TFunc st t ts =
     (case ts of
        [] \<Rightarrow> Inl (FunctionMustBeCalled (Text t))
      | n # _ \<Rightarrow>
          (if Typ n \<noteq> TLParen then Inl (FunctionMustBeCalled (Text t))
           else Inr (st\<lparr>stack := t # stack st\<rparr>)))"

definition prev_is :: "TokenType \<Rightarrow> 'f Token option \<Rightarrow> bool" where
  "prev_is ty pv \<longleftrightarrow> (case pv of None \<Rightarrow> False | Some p \<Rightarrow> Typ p = ty)"

definition step_TLParen :: "'f rpn_state \<Rightarrow> 'f Token \<Rightarrow> error + 'f rpn_state" where
  "step_TLParen st t =
     (if prev_is TFunc (prev st)
      then Inr (st\<lparr>stack := t # stack st, funcParen := True # funcParen st,
                  argCount := 0 # argCount st\<rparr>)
      else Inr (st\<lparr>stack := t # stack st, funcParen := False # funcParen st,
                  argCount := 0 # argCount st\<rparr>))"

definition step_TComma :: "'f rpn_state \<Rightarrow> error + 'f rpn_state" where
  "step_TComma st =
     (case comma_pop (stack st) (out st) of
        (found, stack', out') \<Rightarrow>
          (if \<not> found then Inl CommaOutsideArguments
           else (case funcParen st of
                   [] \<Rightarrow> Inl CommaOutsideArguments
                 | isCall # _ \<Rightarrow>
                     (if \<not> isCall then Inl CommaOutsideArguments
                      else (case argCount st of
                              [] \<Rightarrow> Inl IndexOutOfRange
                            | argc # acs \<Rightarrow>
                                Inr (st\<lparr>out := out', stack := stack',
                                       argCount := (argc + 1) # acs\<rparr>))))))"

definition step_TRParen :: "'f rpn_state \<Rightarrow> error + 'f rpn_state" where
  "step_TRParen st =
     (case rparen_pop (stack st) (out st) of
        (found, stack', out') \<Rightarrow>
          (if \<not> found then Inl MismatchedParentheses
           else (case funcParen st of
                   [] \<Rightarrow> Inl MismatchedParentheses
                 | isFuncCall # fps \<Rightarrow>
                     (case argCount st of
                        [] \<Rightarrow> Inl IndexOutOfRange
                      | argc # acs \<Rightarrow>
                          (if isFuncCall then
                             (let argc' = (if prev_is TLParen (prev st) then 0 else argc + 1)
                              in (case stack' of
                                    [] \<Rightarrow> Inl FunctionCallMissingName
                                  | fn # rest \<Rightarrow>
                                      (if Typ fn \<noteq> TFunc then Inl FunctionCallMissingName
                                       else Inr (st\<lparr>out := out' @ [fn\<lparr>Arity := argc'\<rparr>],
                                                   stack := rest, funcParen := fps,
                                                   argCount := acs\<rparr>))))
                           else Inr (st\<lparr>out := out', stack := stack', funcParen := fps,
                                       argCount := acs\<rparr>))))))"

definition step_TOp :: "'f rpn_state \<Rightarrow> 'f Token \<Rightarrow> error + 'f rpn_state" where
  "step_TOp st t =
     (let t' = unary_rewrite (prev st) t in
      (case op_pop t' (stack st) (out st) of
         (stack', out') \<Rightarrow> Inr (st\<lparr>out := out', stack := t' # stack'\<rparr>)))"

definition toRPN_step :: "'f rpn_state \<Rightarrow> 'f Token \<Rightarrow> 'f Token list \<Rightarrow> error + 'f rpn_state" where
  "toRPN_step st t ts =
     (case Typ t of
        TNumber \<Rightarrow> Inr (st\<lparr>out := out st @ [t]\<rparr>)
      | TFunc \<Rightarrow> step_TFunc st t ts
      | TLParen \<Rightarrow> step_TLParen st t
      | TComma \<Rightarrow> step_TComma st
      | TRParen \<Rightarrow> step_TRParen st
      | TOp \<Rightarrow> step_TOp st t)"

fun toRPN_loop :: "'f rpn_state \<Rightarrow> 'f Token list \<Rightarrow> error + 'f Token list" where
  "toRPN_loop st [] = drain (stack st) (out st)"
| "toRPN_loop st (t # ts) =
     (case toRPN_step st t ts of
        Inl err \<Rightarrow> Inl err
      | Inr st' \<Rightarrow> toRPN_loop (st'\<lparr>prev := Some t\<rparr>) ts)"

definition toRPN :: "'f Token list \<Rightarrow> error + 'f Token list" where
  "toRPN tokens =
     toRPN_loop \<lparr>out = [], stack = [], prev = None, funcParen = [], argCount = []\<rparr> tokens"

section \<open>The float evaluator (\<open>evalRPN\<close>)\<close>

text \<open>The closures \<open>pop\<close> and \<open>popN\<close>; the operand stack has its top at the head.\<close>

definition pop :: "'a list \<Rightarrow> error + ('a \<times> 'a list)" where
  "pop st = (case st of [] \<Rightarrow> Inl NotEnoughOperands | v # rest \<Rightarrow> Inr (v, rest))"

definition popN :: "int \<Rightarrow> 'a list \<Rightarrow> error + ('a list \<times> 'a list)" where
  "popN n st =
     (if n < 0 then Inl InvalidArgumentCount
      else if int (length st) < n then Inl NotEnoughOperands
      else Inr (rev (take (nat n) st), drop (nat n) st))"

definition unary_names :: "string list" where
  "unary_names = [''sin'', ''cos'', ''tan'', ''asin'', ''acos'', ''atan'', ''sqrt'', ''abs'',
     ''ln'', ''log'', ''exp'', ''floor'', ''ceil'', ''round'']"

text \<open>The inner \<open>switch\<close> over the one-argument functions.\<close>

definition unary_fn :: "'f float_ops \<Rightarrow> string \<Rightarrow> 'f \<Rightarrow> 'f" where
  "unary_fn ops name x =
     (if name = ''sin'' then Sin ops x
      else if name = ''cos'' then Cos ops x
      else if name = ''tan'' then Tan ops x
      else if name = ''asin'' then Asin ops x
      else if name = ''acos'' then Acos ops x
      else if name = ''atan'' then Atan ops x
      else if name = ''sqrt'' then Sqrt ops x
      else if name = ''abs'' then Abs ops x
      else if name = ''ln'' then Log ops x
      else if name = ''log'' then Log10 ops x
      else if name = ''exp'' then Exp ops x
      else if name = ''floor'' then Floor ops x
      else if name = ''ceil'' then Ceil ops x
      else if name = ''round'' then Round ops x
      else fzero ops)"

text \<open>
  The loop of \<open>min\<close> and \<open>max\<close> over \<open>args[1:]\<close>, started with \<open>res = args[0]\<close>;
  \<open>lt a b\<close> is \<open>a < b\<close> on the operand type.
\<close>

fun minmax_loop :: "('a \<Rightarrow> 'a \<Rightarrow> bool) \<Rightarrow> string \<Rightarrow> 'a \<Rightarrow> 'a list \<Rightarrow> 'a" where
  "minmax_loop lt name res [] = res"
| "minmax_loop lt name res (x # xs) =
     (if name = ''min''
      then (if lt x res then minmax_loop lt name x xs else minmax_loop lt name res xs)
      else (if lt res x then minmax_loop lt name x xs else minmax_loop lt name res xs))"

definition binary_op :: "'f float_ops \<Rightarrow> string \<Rightarrow> 'f \<Rightarrow> 'f \<Rightarrow> 'f" where
  "binary_op ops op a b =
     (if op = ''+'' then fadd ops a b
      else if op = ''-'' then fsub ops a b
      else if op = ''*'' then fmul ops a b
      else if op = ''/'' then fdiv ops a b
      else if op = ''%'' then fdiv ops (fmul ops a b) (fhundred ops)
      else if op = ''^'' then Pow ops a b
      else fzero ops)"

definition eval_TFunc :: "'f float_ops \<Rightarrow> 'f list \<Rightarrow> 'f Token \<Rightarrow> error + 'f list" where
  "eval_TFunc ops st t =
     (if Text t \<in> set unary_names then
        (if Arity t \<noteq> 1 then Inl (ExpectsOneArgument (Text t))
         else (case popN 1 st of
                 Inl err \<Rightarrow> Inl err
               | Inr (args, st') \<Rightarrow> Inr (unary_fn ops (Text t) (args ! 0) # st')))
      else if Text t = ''min'' \<or> Text t = ''max'' then
        (if Arity t < 2 then Inl (ExpectsAtLeastTwoArguments (Text t))
         else (case popN (Arity t) st of
                 Inl err \<Rightarrow> Inl err
               | Inr (args, st') \<Rightarrow>
                   Inr (minmax_loop (flt ops) (Text t) (args ! 0) (drop 1 args) # st')))
      else if Text t = ''pow'' \<or> Text t = ''atan2'' then
        (if Arity t \<noteq> 2 then Inl (ExpectsTwoArguments (Text t))
         else (case popN 2 st of
                 Inl err \<Rightarrow> Inl err
               | Inr (args, st') \<Rightarrow>
                   (if Text t = ''pow'' then Inr (Pow ops (args ! 0) (args ! 1) # st')
                    else Inr (Atan2 ops (args ! 0) (args ! 1) # st'))))
      else if Text t = ''logn'' then
        (if Arity t \<noteq> 2 then Inl (ExpectsTwoArguments (Text t))
         else (case popN 2 st of
                 Inl err \<Rightarrow> Inl err
               | Inr (args, st') \<Rightarrow>
                   Inr (fdiv ops (Log ops (args ! 0)) (Log ops (args ! 1)) # st')))
      else Inl (UnknownFunction (Text t)))"

definition eval_TOp :: "'f float_ops \<Rightarrow> 'f list \<Rightarrow> 'f Token \<Rightarrow> error + 'f list" where
  "eval_TOp ops st t =
     (if Text t = ''NEG'' then
        (case pop st of
           Inl err \<Rightarrow> Inl err
         | Inr (a, st') \<Rightarrow> Inr (fneg ops a # st'))
      else if Text t = ''POS'' then
        (case pop st of
           Inl err \<Rightarrow> Inl err
         | Inr (a, st') \<Rightarrow> Inr (a # st'))
      else if Text t \<in> set [''+'', ''-'', ''*'', ''/'', ''%'', ''^''] then
        (case pop st of
           Inl err \<Rightarrow> Inl err
         | Inr (b, st') \<Rightarrow>
             (case pop st' of
                Inl err \<Rightarrow> Inl err
              | Inr (a, st'') \<Rightarrow> Inr (binary_op ops (Text t) a b # st'')))
      else Inl (UnknownOperator (Text t)))"

definition evalRPN_step :: "'f float_ops \<Rightarrow> 'f list \<Rightarrow> 'f Token \<Rightarrow> error + 'f list" where
  "evalRPN_step ops st t =
     (case Typ t of
        TNumber \<Rightarrow> Inr (Value t # st)
      | TFunc \<Rightarrow> eval_TFunc ops st t
      | TOp \<Rightarrow> eval_TOp ops st t
      | _ \<Rightarrow> Inl UnexpectedTokenInRPN)"

fun evalRPN_loop :: "'f float_ops \<Rightarrow> 'f list \<Rightarrow> 'f Token list \<Rightarrow> error + 'f" where
  "evalRPN_loop ops st [] =
     (case st of [v] \<Rightarrow> Inr v | _ \<Rightarrow> Inl ExtraValues)"
| "evalRPN_loop ops st (t # ts) =
     (case evalRPN_step ops st t of
        Inl err \<Rightarrow> Inl err
      | Inr st' \<Rightarrow> evalRPN_loop ops st' ts)"

definition evalRPN :: "'f float_ops \<Rightarrow> 'f Token list \<Rightarrow> error + 'f" where
  "evalRPN ops rpn = evalRPN_loop ops [] rpn"

definition EvalExpression :: "'f float_ops \<Rightarrow> string \<Rightarrow> error + 'f" where
  "EvalExpression ops expr =
     (case tokenize ops expr of
        Inl err \<Rightarrow> Inl err
      | Inr toks \<Rightarrow>
          (case toRPN toks of
             Inl err \<Rightarrow> Inl err
           | Inr rpn \<Rightarrow> evalRPN ops rpn))"


section \<open>Checked 64-bit arithmetic of the money evaluator\<close>

text \<open>
  \<open>int64\<close> and \<open>uint64\<close> are 64-bit words: \<open>+\<close>, \<open>-\<close> and \<open>*\<close> wrap as in Go, \<open>sint\<close>
  reads a word as a signed and \<open>uint\<close> as an unsigned number, \<open><s\<close> is the signed and
  \<open><\<close> the unsigned comparison. The conversions \<open>uint64(v)\<close> and \<open>int64(v)\<close> keep the bits.
\<close>

type_synonym int64 = "64 word"
type_synonym uint64 = "64 word"

definition MaxInt64 :: int64 where
  "MaxInt64 = 0x7FFFFFFFFFFFFFFF"

definition MinInt64 :: int64 where
  "MinInt64 = 0x8000000000000000"

definition moneyScale :: int64 where
  "moneyScale = 100"

definition percentScale :: int64 where
  "percentScale = 10000"

text \<open>
  Go's \<open>/\<close> and \<open>%\<close> on \<open>int64\<close> truncate towards zero, and the one quotient that does not
  fit, \<open>MinInt64 / -1\<close>, wraps to \<open>MinInt64\<close> with remainder 0.
\<close>

definition quo64 :: "int64 \<Rightarrow> int64 \<Rightarrow> int64" where
  "quo64 n d = word_of_int (sint n sdiv sint d)"

definition rem64 :: "int64 \<Rightarrow> int64 \<Rightarrow> int64" where
  "rem64 n d = word_of_int (sint n smod sint d)"

definition absUint64 :: "int64 \<Rightarrow> uint64" where
  "absUint64 v = (if 0 \<le>s v then v else NOT v + 1)"

text \<open>\<open>bits.Mul64\<close>: the high and the low half of the 128-bit product.\<close>

definition Mul64 :: "uint64 \<Rightarrow> uint64 \<Rightarrow> uint64 \<times> uint64" where
  "Mul64 x y =
     (word_of_int (uint x * uint y div 2 ^ 64), word_of_int (uint x * uint y mod 2 ^ 64))"

definition addInt64 :: "int64 \<Rightarrow> int64 \<Rightarrow> error + int64" where
  "addInt64 a b =
     (if 0 <s b \<and> MaxInt64 - b <s a then Inl OverflowAdd
      else if b <s 0 \<and> a <s MinInt64 - b then Inl OverflowAdd
      else Inr (a + b))"

definition subInt64 :: "int64 \<Rightarrow> int64 \<Rightarrow> error + int64" where
  "subInt64 a b =
     (if 0 <s b \<and> a <s MinInt64 + b then Inl OverflowSub
      else if b <s 0 \<and> MaxInt64 + b <s a then Inl OverflowSub
      else Inr (a - b))"

definition mulInt64 :: "int64 \<Rightarrow> int64 \<Rightarrow> error + int64" where
  "mulInt64 a b =
     (if a = 0 \<or> b = 0 then Inr 0
      else let signNegative = ((a <s 0) \<noteq> (b <s 0));
               ua = absUint64 a;
               ub = absUint64 b;
               (hi, lo) = Mul64 ua ub
           in if hi \<noteq> 0 then Inl OverflowMul
              else if \<not> signNegative
                   then (if MaxInt64 < lo then Inl OverflowMul else Inr lo)
              else if MaxInt64 + 1 < lo then Inl OverflowMul
              else if lo = MaxInt64 + 1 then Inr MinInt64
              else Inr (- lo))"

definition divRound :: "int64 \<Rightarrow> int64 \<Rightarrow> error + int64" where
  "divRound n d =
     (if d = 0 then Inl DivisionByZero
      else let q = quo64 n d; r = rem64 n d in
        if r = 0 then Inr q
        else let absR = absUint64 r; absD = absUint64 d in
          if absD \<le> absR * 2
          then (if (0 <s n) = (0 <s d) then Inr (q + 1) else Inr (q - 1))
          else Inr q)"

section \<open>Literals of the money evaluator\<close>

definition allDigits :: "string \<Rightarrow> bool" where
  "allDigits s \<longleftrightarrow> s \<noteq> [] \<and> list_all isDigit s"

text \<open>The loop of \<open>isNumericLiteral\<close> over the bytes of the text.\<close>

fun numeric_loop :: "bool \<Rightarrow> string \<Rightarrow> bool" where
  "numeric_loop dotSeen [] = True"
| "numeric_loop dotSeen (c # cs) =
     (if c = CHR ''.'' then (if dotSeen then False else numeric_loop True cs)
      else if c < CHR ''0'' \<or> CHR ''9'' < c then False
      else numeric_loop dotSeen cs)"

definition ContainsAny_eE :: "string \<Rightarrow> bool" where
  "ContainsAny_eE txt \<longleftrightarrow> CHR ''e'' \<in> set txt \<or> CHR ''E'' \<in> set txt"

definition isNumericLiteral :: "string \<Rightarrow> bool" where
  "isNumericLiteral txt =
     (if txt = [] then False
      else if ContainsAny_eE txt then False
      else numeric_loop False txt)"

definition digit_val :: "char \<Rightarrow> int" where
  "digit_val c = of_char c - of_char CHR ''0''"

definition digits_val :: "string \<Rightarrow> int" where
  "digits_val s = foldl (\<lambda>acc c. 10 * acc + digit_val c) 0 s"

text \<open>
  \<open>strconv.ParseInt(s, 10, 64)\<close> on a text of decimal digits, the only texts
  \<open>parseCents\<close> passes: the value, or \<open>None\<close> for the range error on a value above
  \<open>MaxInt64\<close>. Any other text is a syntax error, \<open>None\<close> as well.
\<close>

definition ParseInt :: "string \<Rightarrow> int64 option" where
  "ParseInt s =
     (if \<not> allDigits s then None
      else if 2 ^ 63 \<le> digits_val s then None
      else Some (word_of_int (digits_val s)))"

text \<open>The loop \<open>for len(fracPart) < 2 { fracPart += "0" }\<close>.\<close>

function pad_frac :: "string \<Rightarrow> string" where
  "pad_frac fracPart = (if length fracPart < 2 then pad_frac (fracPart @ ''0'') else fracPart)"
  by pat_completeness auto
termination
  by (relation "measure (\<lambda>s. 2 - length s)") auto

declare pad_frac.simps [simp del]

text \<open>\<open>strings.SplitN(txt, ".", 2)\<close>: the text before the first dot, and the text after it if there is a dot.\<close>

definition SplitN_dot :: "string \<Rightarrow> string list" where
  "SplitN_dot txt =
     (if CHR ''.'' \<in> set txt
      then [takeWhile (\<lambda>c. c \<noteq> CHR ''.'') txt, drop 1 (dropWhile (\<lambda>c. c \<noteq> CHR ''.'') txt)]
      else [txt])"

definition Count_dot :: "string \<Rightarrow> nat" where
  "Count_dot txt = length (filter (\<lambda>c. c = CHR ''.'') txt)"

definition parseCents :: "string \<Rightarrow> error + int64" where
  "parseCents txt =
     (if txt = [] then Inl EmptyNumber
      else if ContainsAny_eE txt then Inl (ExponentNotSupported txt)
      else if Count_dot txt > 1 then Inl (InvalidMoneyNumber txt)
      else let parts = SplitN_dot txt;
               intPart0 = parts ! 0;
               fracPart0 = (if length parts = 2 then parts ! 1 else []);
               intPart = (if intPart0 = [] then ''0'' else intPart0);
               fracPart1 = (if fracPart0 = [] then ''0'' else fracPart0)
           in if \<not> allDigits intPart \<or> \<not> allDigits fracPart1 then Inl (InvalidMoneyNumber txt)
              else if length fracPart1 > 2 then Inl (TooManyDecimalPlaces txt)
              else let fracPart = pad_frac fracPart1 in
                (case ParseInt intPart of
                   None \<Rightarrow> Inl (InvalidMoneyNumberParse txt)
                 | Some whole \<Rightarrow>
                     (case ParseInt fracPart of
                        None \<Rightarrow> Inl (InvalidMoneyNumberParse txt)
                      | Some fracN \<Rightarrow>
                          (case mulInt64 whole moneyScale of
                             Inl err \<Rightarrow> Inl (MoneyValueOverflow txt)
                           | Inr wholeCents \<Rightarrow> addInt64 wholeCents fracN))))"

section \<open>The money evaluator (\<open>evalRPNMoney\<close>)\<close>

definition money_TFunc :: "int64 list \<Rightarrow> 'f Token \<Rightarrow> error + int64 list" where
  "money_TFunc st t =
     (if Text t = ''abs'' then
        (if Arity t \<noteq> 1 then Inl (ExpectsOneArgument (Text t))
         else (case popN 1 st of
                 Inl err \<Rightarrow> Inl err
               | Inr (args, st') \<Rightarrow>
                   (if args ! 0 = MinInt64 then Inl OverflowAbs
                    else if args ! 0 <s 0 then Inr (- (args ! 0) # st')
                    else Inr (args ! 0 # st'))))
      else if Text t = ''min'' \<or> Text t = ''max'' then
        (if Arity t < 2 then Inl (ExpectsAtLeastTwoArguments (Text t))
         else (case popN (Arity t) st of
                 Inl err \<Rightarrow> Inl err
               | Inr (args, st') \<Rightarrow>
                   Inr (minmax_loop (\<lambda>a b. a <s b) (Text t) (args ! 0) (drop 1 args) # st')))
      else Inl (FunctionNotSupported (Text t)))"

text \<open>The inner \<open>switch\<close> of the binary operators.\<close>

definition money_binary :: "string \<Rightarrow> int64 \<Rightarrow> int64 \<Rightarrow> error + int64" where
  "money_binary op a b =
     (if op = ''+'' then addInt64 a b
      else if op = ''-'' then subInt64 a b
      else if op = ''*'' then
        (case mulInt64 a b of
           Inl err \<Rightarrow> Inl err
         | Inr product \<Rightarrow> divRound product moneyScale)
      else if op = ''/'' then
        (case mulInt64 a moneyScale of
           Inl err \<Rightarrow> Inl err
         | Inr num \<Rightarrow> divRound num b)
      else if op = ''%'' then
        (case mulInt64 a b of
           Inl err \<Rightarrow> Inl err
         | Inr product \<Rightarrow> divRound product percentScale)
      else Inr 0)"

definition money_TOp :: "int64 list \<Rightarrow> 'f Token \<Rightarrow> error + int64 list" where
  "money_TOp st t =
     (if Text t = ''NEG'' then
        (case pop st of
           Inl err \<Rightarrow> Inl err
         | Inr (a, st') \<Rightarrow>
             (if a = MinInt64 then Inl OverflowNegate else Inr (- a # st')))
      else if Text t = ''POS'' then
        (case pop st of
           Inl err \<Rightarrow> Inl err
         | Inr (a, st') \<Rightarrow> Inr (a # st'))
      else if Text t \<in> set [''+'', ''-'', ''*'', ''/'', ''%''] then
        (case pop st of
           Inl err \<Rightarrow> Inl err
         | Inr (b, st') \<Rightarrow>
             (case pop st' of
                Inl err \<Rightarrow> Inl err
              | Inr (a, st'') \<Rightarrow>
                  (case money_binary (Text t) a b of
                     Inl err \<Rightarrow> Inl err
                   | Inr res \<Rightarrow> Inr (res # st''))))
      else Inl (OperatorNotSupported (Text t)))"

definition evalRPNMoney_step :: "int64 list \<Rightarrow> 'f Token \<Rightarrow> error + int64 list" where
  "evalRPNMoney_step st t =
     (case Typ t of
        TNumber \<Rightarrow>
          (if \<not> isNumericLiteral (Text t) then Inl (NonNumericLiteral (Text t))
           else (case parseCents (Text t) of
                   Inl err \<Rightarrow> Inl err
                 | Inr v \<Rightarrow> Inr (v # st)))
      | TFunc \<Rightarrow> money_TFunc st t
      | TOp \<Rightarrow> money_TOp st t
      | _ \<Rightarrow> Inl UnexpectedTokenInRPN)"

fun evalRPNMoney_loop :: "int64 list \<Rightarrow> 'f Token list \<Rightarrow> error + int64" where
  "evalRPNMoney_loop st [] =
     (case st of [v] \<Rightarrow> Inr v | _ \<Rightarrow> Inl ExtraValues)"
| "evalRPNMoney_loop st (t # ts) =
     (case evalRPNMoney_step st t of
        Inl err \<Rightarrow> Inl err
      | Inr st' \<Rightarrow> evalRPNMoney_loop st' ts)"

definition evalRPNMoney :: "'f Token list \<Rightarrow> error + int64" where
  "evalRPNMoney rpn = evalRPNMoney_loop [] rpn"

definition EvalMoneyExpression :: "'f float_ops \<Rightarrow> string \<Rightarrow> error + int64" where
  "EvalMoneyExpression ops expr =
     (case tokenize ops expr of
        Inl err \<Rightarrow> Inl err
      | Inr toks \<Rightarrow>
          (case toRPN toks of
             Inl err \<Rightarrow> Inl err
           | Inr rpn \<Rightarrow> evalRPNMoney rpn))"

section \<open>A reference instance of the floating-point operations\<close>

text \<open>
  \<open>exact_ops\<close> interprets the floating-point operations by exact arithmetic on the
  reals: no rounding, no infinities and no NaN. It agrees with \<open>float64\<close> wherever the
  operands and the result of every operation are representable and finite, as is the
  case for the small integers and dyadic fractions of the example expressions. The
  concrete values of the float evaluator are stated for this instance; everything
  else is stated for an arbitrary record of operations.
\<close>

definition parse_decimal :: "string \<Rightarrow> real option" where
  "parse_decimal txt =
     (let ip = takeWhile isDigit txt;
          r1 = dropWhile isDigit txt;
          hasDot = (r1 \<noteq> [] \<and> hd r1 = CHR ''.'');
          fp = (if hasDot then takeWhile isDigit (drop 1 r1) else []);
          r2 = (if hasDot then dropWhile isDigit (drop 1 r1) else r1);
          m = of_int (digits_val ip) + of_int (digits_val fp) / 10 ^ length fp
      in if ip = [] \<and> fp = [] then None
         else if r2 = [] then Some m
         else if hd r2 = CHR ''e'' \<or> hd r2 = CHR ''E'' then
           (let r3 = drop 1 r2;
                neg = (r3 \<noteq> [] \<and> hd r3 = CHR ''-'');
                r4 = (if r3 \<noteq> [] \<and> (hd r3 = CHR ''+'' \<or> hd r3 = CHR ''-'') then drop 1 r3 else r3)
            in if allDigits r4
               then Some (if neg then m / 10 ^ nat (digits_val r4) else m * 10 ^ nat (digits_val r4))
               else None)
         else None)"

definition exact_pow :: "real \<Rightarrow> real \<Rightarrow> real" where
  "exact_pow a b =
     (if b = of_int \<lfloor>b\<rfloor>
      then (if 0 \<le> b then a ^ nat \<lfloor>b\<rfloor> else 1 / a ^ nat (- \<lfloor>b\<rfloor>))
      else a powr b)"

definition exact_ops :: "real float_ops" where
  "exact_ops =
     \<lparr>fzero = 0, fhundred = 100,
      fadd = (\<lambda>a b. a + b), fsub = (\<lambda>a b. a - b), fmul = (\<lambda>a b. a * b), fdiv = (\<lambda>a b. a / b),
      fneg = (\<lambda>a. - a), flt = (\<lambda>a b. a < b),
      ParseFloat = parse_decimal, Pi = pi, E = exp 1,
      Sin = sin, Cos = cos, Tan = tan, Asin = arcsin, Acos = arccos, Atan = arctan,
      Sqrt = sqrt, Abs = abs, Log = ln, Log10 = log 10, Exp = exp,
      Floor = (\<lambda>x. of_int \<lfloor>x\<rfloor>), Ceil = (\<lambda>x. of_int \<lceil>x\<rceil>),
      Round = (\<lambda>x. sgn x * of_int \<lfloor>\<bar>x\<bar> + 1 / 2\<rfloor>),
      Pow = exact_pow,
      Atan2 = (\<lambda>y x. Arg (Complex x y))\<rparr>"


section \<open>Reference notions\<close>

text \<open>
  The mathematical notions the properties below are stated with. \<open>in_int64 k\<close>: the
  integer \<open>k\<close> is in the signed 64-bit range. \<open>round_half_away n d\<close>: the quotient of
  \<open>n\<close> by \<open>d\<close> rounded to the nearest integer, a tie going away from zero.
\<close>

definition in_int64 :: "int \<Rightarrow> bool" where
  "in_int64 k \<longleftrightarrow> - (2 ^ 63) \<le> k \<and> k < 2 ^ 63"

definition round_half_away :: "int \<Rightarrow> int \<Rightarrow> int" where
  "round_half_away n d = sgn n * sgn d * ((2 * \<bar>n\<bar> + \<bar>d\<bar>) div (2 * \<bar>d\<bar>))"


text \<open>
  The cents of a literal with the digits \<open>w\<close> before the dot and the digits \<open>f\<close> after
  it: \<open>w\<close> times 100 plus \<open>f\<close> padded on the right to two digits. The run of the money
  evaluator over a prefix of the postfix sequence, without the final check of the stack.
\<close>

definition cents_of :: "string \<Rightarrow> string \<Rightarrow> int" where
  "cents_of w f = digits_val w * 100 + digits_val (take 2 (f @ ''00''))"

fun money_steps :: "int64 list \<Rightarrow> 'f Token list \<Rightarrow> error + int64 list" where
  "money_steps st [] = Inr st"
| "money_steps st (t # ts) =
     (case evalRPNMoney_step st t of
        Inl err \<Rightarrow> Inl err
      | Inr st' \<Rightarrow> money_steps st' ts)"

section \<open>Properties of the checked arithmetic\<close>

lemma half_up_div:
  fixes a b :: int
  assumes "0 \<le> a" "0 < b"
  shows "(2 * a + b) div (2 * b) = a div b + (if b \<le> 2 * (a mod b) then 1 else 0)"
proof -
  define q where "q = a div b"
  define r where "r = a mod b"
  have a: "a = b * q + r" by (simp add: q_def r_def)
  have r: "0 \<le> r" "r < b" using assms by (simp_all add: r_def)
  have e: "2 * a + b = (2 * b) * q + (2 * r + b)" by (simp add: a algebra_simps)
  show ?thesis
  proof (cases "b \<le> 2 * r")
    case True
    have "2 * a + b = (2 * b) * (q + 1) + (2 * r - b)" by (simp add: a algebra_simps)
    moreover have "0 \<le> 2 * r - b" "2 * r - b < 2 * b" using True r by auto
    ultimately have "(2 * a + b) div (2 * b) = q + 1"
      by (metis div_pos_pos_trivial add.right_neutral div_mult_self2 assms(2) mult_eq_0_iff not_less_iff_gr_or_eq zero_neq_numeral add.commute)
    then show ?thesis using True by (simp add: q_def r_def)
  next
    case False
    have "0 \<le> 2 * r + b" "2 * r + b < 2 * b" using False r by auto
    with e have "(2 * a + b) div (2 * b) = q"
      by (metis div_pos_pos_trivial add.right_neutral div_mult_self2 assms(2) mult_eq_0_iff not_less_iff_gr_or_eq zero_neq_numeral add.commute)
    then show ?thesis using False by (simp add: q_def r_def)
  qed
qed

lemma rha_trunc:
  assumes "d \<noteq> 0"
  shows "round_half_away n d =
    n sdiv d + (if \<bar>d\<bar> \<le> 2 * \<bar>n smod d\<bar> then sgn n * sgn d else 0)"
proof -
  have "\<bar>n smod d\<bar> = \<bar>n\<bar> mod \<bar>d\<bar>"
    using assms by (cases "n = 0") (simp_all add: signed_modulo_int_def abs_mult abs_sgn_eq)
  then show ?thesis
    using assms half_up_div [of "\<bar>n\<bar>" "\<bar>d\<bar>"]
    by (cases "n = 0") (simp_all add: round_half_away_def signed_divide_int_def algebra_simps)
qed

lemma sint64_range: "- (2 ^ 63) \<le> sint (x :: int64)" "sint (x :: int64) < 2 ^ 63"
  using sint_ge [of x] sint_lt [of x] by simp_all

lemma sint_word_of_int64:
  "- (2 ^ 63) \<le> k \<Longrightarrow> k < 2 ^ 63 \<Longrightarrow> sint (word_of_int k :: int64) = k"
  by (simp add: sint_sbintrunc' signed_take_bit_int_eq_self)



lemma uint_absUint64: "uint (absUint64 v) = \<bar>sint v\<bar>"
proof (cases "0 \<le> sint v")
  case True
  then have "take_bit 64 (sint v) = sint v"
    using sint64_range(2) [of v] by (intro take_bit_int_eq_self) simp_all
  with True show ?thesis
    by (simp add: absUint64_def word_sle_eq uint_sint)
next
  case False
  have "uint (word_of_int (- sint v) :: 64 word) = take_bit 64 (- sint v)"
    by (simp only: uint_word_of_int_eq) simp
  moreover have "take_bit 64 (- sint v) = - sint v"
    using False sint64_range(1) [of v] by (intro take_bit_int_eq_self) simp_all
  ultimately have "uint (- v) = - sint v" by simp
  then show ?thesis
    using False by (simp add: absUint64_def word_sle_eq not_eq_complement)
qed

lemma smod_int_bound: "l \<noteq> 0 \<Longrightarrow> \<bar>(k::int) smod l\<bar> < \<bar>l\<bar>"
  by (cases "k = 0") (simp_all add: signed_modulo_int_def abs_mult abs_sgn_eq)

lemma abs_sdiv_int: "\<bar>(k::int) sdiv l\<bar> = \<bar>k\<bar> div \<bar>l\<bar>"
  by (cases "k = 0"; cases "l = 0")
    (simp_all add: signed_divide_int_def abs_mult abs_sgn_eq div_int_pos_iff)

lemma sint_rem64: "d \<noteq> 0 \<Longrightarrow> sint (rem64 n d) = sint n smod sint d"
proof -
  assume "d \<noteq> 0"
  then have "sint d \<noteq> 0" by (simp add: signed_eq_0_iff)
  then have "\<bar>sint n smod sint d\<bar> < \<bar>sint d\<bar>" by (rule smod_int_bound)
  then show ?thesis
    unfolding rem64_def using sint64_range [of d]
    by (intro sint_word_of_int64) linarith+
qed

lemma sint_MinInt64: "sint MinInt64 = - (2 ^ 63)"
  by (simp add: MinInt64_def)

lemma sint_eq_MinInt64:
  assumes "sint n = - (2 ^ 63)"
  shows "n = MinInt64"
proof -
  have "sint n = sint MinInt64" using assms by (simp add: sint_MinInt64)
  then have "(word_of_int (sint n) :: int64) = word_of_int (sint MinInt64)" by (rule arg_cong)
  then show ?thesis by simp
qed

lemma sint_eq_minus1: "sint (d::int64) = - 1 \<Longrightarrow> d = - 1"
  by (rule signed_word_eqI) simp

lemma sint_quo64:
  assumes "d \<noteq> 0" "\<not> (n = MinInt64 \<and> d = - 1)"
  shows "sint (quo64 n d) = sint n sdiv sint d"
proof -
  have d0: "sint d \<noteq> 0" using assms(1) by (simp add: signed_eq_0_iff)
  have "- (2 ^ 63) \<le> sint n sdiv sint d \<and> sint n sdiv sint d < 2 ^ 63"
  proof (cases "\<bar>sint d\<bar> = 1")
    case True
    then consider "sint d = 1" | "sint d = - 1" by linarith
    then show ?thesis
    proof cases
      case 1
      then show ?thesis using sint64_range [of n] by simp
    next
      case 2
      then have "d = - 1" by (rule sint_eq_minus1)
      with assms(2) have "n \<noteq> MinInt64" by simp
      then have "sint n \<noteq> - (2 ^ 63)" using sint_eq_MinInt64 by blast
      then show ?thesis using 2 sint64_range [of n] by simp
    qed
  next
    case False
    with d0 have "2 \<le> \<bar>sint d\<bar>" by linarith
    then have "\<bar>sint n\<bar> div \<bar>sint d\<bar> \<le> \<bar>sint n\<bar> div 2"
      by (intro zdiv_mono2) simp_all
    moreover have "\<bar>sint n\<bar> \<le> 2 ^ 63" using sint64_range [of n] by linarith
    ultimately have "\<bar>sint n sdiv sint d\<bar> \<le> 2 ^ 62"
      by (simp add: abs_sdiv_int)
    then show ?thesis by (simp add: abs_le_iff)
  qed
  then show ?thesis
    unfolding quo64_def by (intro sint_word_of_int64) simp_all
qed

lemma sint_succ64: "sint (q::int64) + 1 < 2 ^ 63 \<Longrightarrow> sint (q + 1) = sint q + 1"
  using sint64_range(1) [of q]
  by (simp add: sint_word_add signed_take_bit_int_eq_self)

lemma sint_pred64: "- (2 ^ 63) \<le> sint (q::int64) - 1 \<Longrightarrow> sint (q - 1) = sint q - 1"
  using sint64_range(2) [of q]
  by (simp add: sint_word_ariths signed_take_bit_int_eq_self)

lemma divRound_exact:
  assumes d: "d \<noteq> 0" and nd: "\<not> (n = MinInt64 \<and> d = - 1)"
  shows "\<exists>q. divRound n d = Inr q \<and> sint q = round_half_away (sint n) (sint d)"
proof -
  define s t where "s = sint n" and "t = sint d"
  have t0: "t \<noteq> 0" using d by (simp add: t_def signed_eq_0_iff)
  have q: "sint (quo64 n d) = s sdiv t" using sint_quo64 [OF d nd] by (simp add: s_def t_def)
  have r: "sint (rem64 n d) = s smod t" using sint_rem64 [OF d] by (simp add: s_def t_def)
  have r0: "rem64 n d = 0 \<longleftrightarrow> s smod t = 0"
    using r by (metis signed_eq_0_iff)
  have rb: "\<bar>s smod t\<bar> < \<bar>t\<bar>" using t0 by (rule smod_int_bound)
  have tb: "\<bar>t\<bar> \<le> 2 ^ 63" using sint64_range [of d] by (simp add: t_def abs_le_iff)
  have "uint (absUint64 (rem64 n d) * 2) = take_bit 64 (\<bar>s smod t\<bar> * 2)"
    by (simp add: uint_word_ariths uint_absUint64 r take_bit_eq_mod)
  also have "\<dots> = \<bar>s smod t\<bar> * 2"
    using rb tb by (intro take_bit_int_eq_self) simp_all
  finally have cmp: "absUint64 d \<le> absUint64 (rem64 n d) * 2 \<longleftrightarrow> \<bar>t\<bar> \<le> 2 * \<bar>s smod t\<bar>"
    by (simp add: word_le_def uint_absUint64 t_def mult.commute)
  have sgn_n: "0 <s n \<longleftrightarrow> 0 < s" by (simp add: word_sless_alt s_def)
  have sgn_d: "0 <s d \<longleftrightarrow> 0 < t" by (simp add: word_sless_alt t_def)
  show ?thesis
  proof (cases "s smod t = 0")
    case True
    then show ?thesis
      using r0 q t0 by (simp add: divRound_def d Let_def rha_trunc s_def [symmetric] t_def [symmetric])
  next
    case False
    then have s0: "s \<noteq> 0" by (auto simp: signed_modulo_int_def)
    from False rb have "2 \<le> \<bar>t\<bar>" by linarith
    then have "\<bar>s\<bar> div \<bar>t\<bar> \<le> \<bar>s\<bar> div 2" by (intro zdiv_mono2) simp_all
    moreover have "\<bar>s\<bar> \<le> 2 ^ 63" using sint64_range [of n] by (simp add: s_def abs_le_iff)
    ultimately have "\<bar>s sdiv t\<bar> \<le> 2 ^ 62" by (simp add: abs_sdiv_int)
    then have qb: "sint (quo64 n d) + 1 < 2 ^ 63" "- (2 ^ 63) \<le> sint (quo64 n d) - 1"
      by (simp_all add: q abs_le_iff)
    have sg: "sgn s * sgn t = (if (0 < s) = (0 < t) then 1 else - 1)"
      using s0 t0 by (auto simp: sgn_if)
    show ?thesis
      using False r0 t0 sg
      by (simp add: divRound_def d Let_def cmp sgn_n sgn_d sint_succ64 [OF qb(1)] sint_pred64 [OF qb(2)] q
          rha_trunc s_def [symmetric] t_def [symmetric])
  qed
qed

lemma sint_MaxInt64: "sint MaxInt64 = 2 ^ 63 - 1"
  by (simp add: MaxInt64_def)

lemma sint_add64: "in_int64 (sint (a::int64) + sint b) \<Longrightarrow> sint (a + b) = sint a + sint b"
  by (simp add: in_int64_def sint_word_ariths signed_take_bit_int_eq_self)

lemma sint_sub64: "in_int64 (sint (a::int64) - sint b) \<Longrightarrow> sint (a - b) = sint a - sint b"
  by (simp add: in_int64_def sint_word_ariths signed_take_bit_int_eq_self)

lemma addInt64_exact:
  "addInt64 a b = (if in_int64 (sint a + sint b) then Inr (word_of_int (sint a + sint b)) else Inl OverflowAdd)"
proof -
  have 1: "sint (MaxInt64 - b) = 2 ^ 63 - 1 - sint b" if "0 < sint b"
    using that sint64_range [of b] sint_sub64 [of MaxInt64 b] by (simp add: in_int64_def sint_MaxInt64)
  have 2: "sint (MinInt64 - b) = - (2 ^ 63) - sint b" if "sint b < 0"
    using that sint64_range [of b] sint_sub64 [of MinInt64 b] by (simp add: in_int64_def sint_MinInt64)
  show ?thesis
    using sint64_range [of a] sint64_range [of b]
    by (auto simp: addInt64_def word_sless_alt 1 2 in_int64_def)
qed

lemma subInt64_exact:
  "subInt64 a b = (if in_int64 (sint a - sint b) then Inr (word_of_int (sint a - sint b)) else Inl OverflowSub)"
proof -
  have 1: "sint (MinInt64 + b) = - (2 ^ 63) + sint b" if "0 < sint b"
    using that sint64_range [of b] sint_add64 [of MinInt64 b] by (simp add: in_int64_def sint_MinInt64)
  have 2: "sint (MaxInt64 + b) = 2 ^ 63 - 1 + sint b" if "sint b < 0"
    using that sint64_range [of b] sint_add64 [of MaxInt64 b] by (simp add: in_int64_def sint_MaxInt64)
  show ?thesis
    using sint64_range [of a] sint64_range [of b]
    by (auto simp: subInt64_def word_sless_alt 1 2 in_int64_def)
qed

lemma uint_absUint64_bound: "uint (absUint64 v) \<le> 2 ^ 63"
  using sint64_range [of v] by (simp add: uint_absUint64 abs_le_iff)

lemma Mul64_hi_zero:
  assumes "uint x \<le> 2 ^ 63" "uint y \<le> 2 ^ 63"
  shows "fst (Mul64 x y) = 0 \<longleftrightarrow> uint x * uint y < 2 ^ 64"
proof -
  define p where "p = uint x * uint y"
  have p0: "0 \<le> p" by (simp add: p_def)
  have "p \<le> 2 ^ 63 * 2 ^ 63" unfolding p_def using assms by (intro mult_mono) simp_all
  then have "p div 2 ^ 64 \<le> (2 ^ 63 * 2 ^ 63) div 2 ^ 64"
    by (intro zdiv_mono1) simp_all
  then have "p div 2 ^ 64 < 2 ^ 64" by simp
  have hb: "0 \<le> p div 2 ^ 64" using p0 by (simp add: pos_imp_zdiv_nonneg_iff)
  have "uint (word_of_int (p div 2 ^ 64) :: uint64) = p div 2 ^ 64"
    using hb \<open>p div 2 ^ 64 < 2 ^ 64\<close>
    by (simp add: uint_word_of_int_eq take_bit_int_eq_self)
  then have "(word_of_int (p div 2 ^ 64) :: uint64) = 0 \<longleftrightarrow> p div 2 ^ 64 = 0"
    by (metis uint_0_iff)
  also have "\<dots> \<longleftrightarrow> p < 2 ^ 64"
    using p0 by (auto simp: zdiv_eq_0_iff)
  finally show ?thesis by (simp add: Mul64_def p_def)
qed

lemma Mul64_lo:
  assumes "uint x * uint y < 2 ^ 64"
  shows "uint (snd (Mul64 x y)) = uint x * uint y"
proof -
  have "0 \<le> uint x * uint y" by simp
  then show ?thesis
    using assms by (simp add: Mul64_def uint_word_ariths)
qed

lemma uint_MaxInt64: "uint MaxInt64 = 2 ^ 63 - 1" "uint (MaxInt64 + 1) = 2 ^ 63"
  by (simp_all add: MaxInt64_def)

lemma MinInt64_of_int: "MinInt64 = word_of_int (- (2 ^ 63))"
  by (simp add: MinInt64_def)

lemma mulInt64_exact:
  "mulInt64 a b =
     (if in_int64 (sint a * sint b) then Inr (word_of_int (sint a * sint b)) else Inl OverflowMul)"
proof (cases "a = 0 \<or> b = 0")
  case True
  then show ?thesis by (auto simp: mulInt64_def in_int64_def)
next
  case False
  define sa sb where "sa = sint a" and "sb = sint b"
  define hi lo where "hi = fst (Mul64 (absUint64 a) (absUint64 b))"
    and "lo = snd (Mul64 (absUint64 a) (absUint64 b))"
  define p where "p = \<bar>sa\<bar> * \<bar>sb\<bar>"
  have nz: "sa \<noteq> 0" "sb \<noteq> 0" using False by (simp_all add: sa_def sb_def signed_eq_0_iff)
  have pu: "p = uint (absUint64 a) * uint (absUint64 b)"
    by (simp add: p_def sa_def sb_def uint_absUint64)
  have hi0: "hi = 0 \<longleftrightarrow> p < 2 ^ 64"
    unfolding hi_def pu by (rule Mul64_hi_zero) (rule uint_absUint64_bound)+
  have lo: "uint lo = p" if "p < 2 ^ 64"
    using that unfolding lo_def pu by (rule Mul64_lo)
  have low: "lo = word_of_int p" if "p < 2 ^ 64"
    using lo [OF that] by (metis word_of_int_uint)
  have neg: "(a <s 0) \<noteq> (b <s 0) \<longleftrightarrow> sa * sb < 0"
    using nz by (auto simp: word_sless_alt sa_def sb_def mult_less_0_iff)
  have prod: "sa * sb = (if sa * sb < 0 then - p else p)"
    by (simp add: p_def abs_mult [symmetric])
  have m: "mulInt64 a b =
     (if hi \<noteq> 0 then Inl OverflowMul
      else if \<not> (sa * sb < 0) then (if MaxInt64 < lo then Inl OverflowMul else Inr lo)
      else if MaxInt64 + 1 < lo then Inl OverflowMul
      else if lo = MaxInt64 + 1 then Inr MinInt64
      else Inr (- lo))"
    unfolding mulInt64_def Let_def split_beta neg hi_def [symmetric] lo_def [symmetric]
    by (simp only: False if_False)
  show ?thesis
  proof (cases "p < 2 ^ 64")
    case False
    then have "\<not> in_int64 (sint a * sint b)"
      using prod by (auto simp: in_int64_def sa_def sb_def split: if_splits)
    with False show ?thesis by (simp add: m hi0)
  next
    case True
    note lo = lo [OF True] and low = low [OF True]
    have c1: "MaxInt64 < lo \<longleftrightarrow> 2 ^ 63 - 1 < p"
      by (simp add: word_less_def uint_MaxInt64 lo)
    have c2: "MaxInt64 + 1 < lo \<longleftrightarrow> 2 ^ 63 < p"
      by (simp add: word_less_def uint_MaxInt64 lo)
    have c3: "lo = MaxInt64 + 1 \<longleftrightarrow> p = 2 ^ 63"
      using lo uint_MaxInt64(2) by (metis word_of_int_uint)
    have p0: "0 \<le> p" by (simp add: p_def)
    show ?thesis
    proof (cases "sa * sb < 0")
      case False
      then have "sa * sb = p" using prod by simp
      then show ?thesis
        using True False p0 hi0
        by (simp add: m c1 [unfolded low] low in_int64_def sa_def [symmetric] sb_def [symmetric])
    next
      case neg: True
      then have "sa * sb = - p" using prod by simp
      then show ?thesis
        using True neg p0 hi0
        by (auto simp: m c2 [unfolded low] c3 [unfolded low] low in_int64_def MinInt64_of_int
            sa_def [symmetric] sb_def [symmetric])
    qed
  qed
qed


lemma sint_mul64: "in_int64 (sint (a::int64) * sint b) \<Longrightarrow> sint (a * b) = sint a * sint b"
  by (simp add: in_int64_def sint_word_ariths signed_take_bit_int_eq_self)

lemma sint_neg64: "a \<noteq> MinInt64 \<Longrightarrow> sint (- a :: int64) = - sint a"
proof -
  assume "a \<noteq> MinInt64"
  then have "sint a \<noteq> - (2 ^ 63)" using sint_eq_MinInt64 by blast
  then show ?thesis
    using sint64_range [of a]
    by (simp add: sint_word_ariths signed_take_bit_int_eq_self)
qed

lemma addInt64_sint:
  "if in_int64 (sint a + sint b)
   then \<exists>r. addInt64 a b = Inr r \<and> sint r = sint a + sint b
   else addInt64 a b = Inl OverflowAdd"
  by (simp add: addInt64_exact sint_add64)

lemma subInt64_sint:
  "if in_int64 (sint a - sint b)
   then \<exists>r. subInt64 a b = Inr r \<and> sint r = sint a - sint b
   else subInt64 a b = Inl OverflowSub"
  by (simp add: subInt64_exact sint_sub64)

lemma mulInt64_sint:
  "if in_int64 (sint a * sint b)
   then \<exists>r. mulInt64 a b = Inr r \<and> sint r = sint a * sint b
   else mulInt64 a b = Inl OverflowMul"
  by (simp add: mulInt64_exact sint_mul64)

lemma mul_scale_not_min:
  assumes "mulInt64 a moneyScale = Inr num"
  shows "num \<noteq> MinInt64"
proof
  assume m: "num = MinInt64"
  have s: "sint moneyScale = 100" by (simp add: moneyScale_def)
  from mulInt64_sint [of a moneyScale] assms have "sint num = sint a * 100"
    by (auto simp: s split: if_splits)
  with m have "sint a * 100 = - (2 ^ 63)" by (simp add: sint_MinInt64)
  then have "(100::int) dvd - (2 ^ 63)" by (metis dvd_triv_right)
  then show False by simp
qed

lemma money_mul_sint:
  "if in_int64 (sint a * sint b)
   then \<exists>r. money_binary ''*'' a b = Inr r \<and> sint r = round_half_away (sint a * sint b) 100
   else money_binary ''*'' a b = Inl OverflowMul"
proof (cases "in_int64 (sint a * sint b)")
  case True
  with mulInt64_sint [of a b] obtain p where p: "mulInt64 a b = Inr p" "sint p = sint a * sint b"
    by auto
  have "\<exists>q. divRound p moneyScale = Inr q \<and> sint q = round_half_away (sint p) (sint moneyScale)"
    by (rule divRound_exact) (simp_all add: moneyScale_def)
  then show ?thesis using True p by (simp add: money_binary_def moneyScale_def)
next
  case False
  with mulInt64_sint [of a b] show ?thesis by (simp add: money_binary_def)
qed

lemma money_percent_sint:
  "if in_int64 (sint a * sint b)
   then \<exists>r. money_binary ''%'' a b = Inr r \<and> sint r = round_half_away (sint a * sint b) 10000
   else money_binary ''%'' a b = Inl OverflowMul"
proof (cases "in_int64 (sint a * sint b)")
  case True
  with mulInt64_sint [of a b] obtain p where p: "mulInt64 a b = Inr p" "sint p = sint a * sint b"
    by auto
  have "\<exists>q. divRound p percentScale = Inr q \<and> sint q = round_half_away (sint p) (sint percentScale)"
    by (rule divRound_exact) (simp_all add: percentScale_def)
  then show ?thesis using True p by (simp add: money_binary_def percentScale_def)
next
  case False
  with mulInt64_sint [of a b] show ?thesis by (simp add: money_binary_def)
qed

lemma money_div_sint:
  "if \<not> in_int64 (sint a * 100) then money_binary ''/'' a b = Inl OverflowMul
   else if b = 0 then money_binary ''/'' a b = Inl DivisionByZero
   else \<exists>r. money_binary ''/'' a b = Inr r \<and> sint r = round_half_away (sint a * 100) (sint b)"
proof -
  have s: "sint moneyScale = 100" by (simp add: moneyScale_def)
  show ?thesis
  proof (cases "in_int64 (sint a * 100)")
    case False
    with mulInt64_sint [of a moneyScale] show ?thesis by (simp add: money_binary_def s)
  next
    case True
    with mulInt64_sint [of a moneyScale] obtain num
      where n: "mulInt64 a moneyScale = Inr num" "sint num = sint a * 100"
      by (auto simp: s)
    show ?thesis
    proof (cases "b = 0")
      case True
      then show ?thesis using \<open>in_int64 (sint a * 100)\<close> n
        by (simp add: money_binary_def divRound_def)
    next
      case False
      have "num \<noteq> MinInt64" using n(1) by (rule mul_scale_not_min)
      then have "\<exists>q. divRound num b = Inr q \<and> sint q = round_half_away (sint num) (sint b)"
        using False by (intro divRound_exact) simp_all
      then show ?thesis using False \<open>in_int64 (sint a * 100)\<close> n
        by (simp add: money_binary_def)
    qed
  qed
qed

lemma money_neg_step:
  "money_TOp (a # st) \<lparr>Typ = TOp, Text = ''NEG'', Value = v, Arity = n\<rparr>
     = (if a = MinInt64 then Inl OverflowNegate else Inr (- a # st))"
  by (simp add: money_TOp_def pop_def)

lemma money_abs_step:
  "money_TFunc (a # st) \<lparr>Typ = TFunc, Text = ''abs'', Value = v, Arity = 1\<rparr>
     = (if a = MinInt64 then Inl OverflowAbs
        else if a <s 0 then Inr (- a # st) else Inr (a # st))"
  by (simp add: money_TFunc_def popN_def)

lemma round_half_away_nearest:
  assumes "d \<noteq> 0"
  shows "2 * \<bar>round_half_away n d * d - n\<bar> \<le> \<bar>d\<bar>
     \<and> (2 * \<bar>round_half_away n d * d - n\<bar> = \<bar>d\<bar> \<longrightarrow> \<bar>n\<bar> < \<bar>round_half_away n d * d\<bar>)"
proof -
  define A B K M where "A = \<bar>n\<bar>" and "B = \<bar>d\<bar>" and "K = (2 * A + B) div (2 * B)"
    and "M = (2 * A + B) mod (2 * B)"
  have B: "0 < B" using assms by (simp add: B_def)
  have A: "0 \<le> A" by (simp add: A_def)
  have M: "0 \<le> M" "M < 2 * B" using B by (simp_all add: M_def)
  have e: "2 * A + B = 2 * (B * K) + M"
    using div_mult_mod_eq [of "2 * A + B" "2 * B"] by (simp add: K_def M_def algebra_simps)
  have K: "0 \<le> K" using A B by (simp add: K_def pos_imp_zdiv_nonneg_iff)
  have r: "round_half_away n d * d - n = sgn n * (B * K - A)"
  proof -
    have "round_half_away n d * d = sgn n * (sgn d * d) * K"
      by (simp add: round_half_away_def K_def A_def B_def algebra_simps)
    also have "sgn d * d = B" by (simp add: B_def abs_sgn mult.commute)
    finally have "round_half_away n d * d = sgn n * (B * K)" by (simp add: algebra_simps)
    moreover have "n = sgn n * A" by (simp add: A_def abs_sgn mult.commute sgn_mult_abs)
    ultimately show ?thesis by (simp add: algebra_simps)
  qed
  have rd: "\<bar>round_half_away n d * d\<bar> = \<bar>sgn n\<bar> * (B * K)"
  proof -
    have "round_half_away n d * d = sgn n * (sgn d * d) * K"
      by (simp add: round_half_away_def K_def A_def B_def algebra_simps)
    also have "sgn d * d = B" by (simp add: B_def abs_sgn mult.commute)
    finally have "round_half_away n d * d = sgn n * (B * K)" by (simp add: algebra_simps)
    then show ?thesis using B K by (simp add: abs_mult)
  qed
  show ?thesis
  proof (cases "n = 0")
    case True
    then show ?thesis using B by (simp add: round_half_away_def B_def)
  next
    case False
    then have "\<bar>sgn n\<bar> = 1" by (simp add: sgn_if)
    then have 1: "\<bar>round_half_away n d * d - n\<bar> = \<bar>B * K - A\<bar>"
      by (simp add: r abs_mult)
    have 2: "\<bar>round_half_away n d * d\<bar> = B * K"
      using rd \<open>\<bar>sgn n\<bar> = 1\<close> by simp
    have g: "2 * \<bar>P - A\<bar> \<le> B \<and> (2 * \<bar>P - A\<bar> = B \<longrightarrow> A < P)"
      if "2 * A + B = 2 * P + M" for P
      using that M by (auto simp: abs_if split: if_splits)
    show ?thesis unfolding 1 2 A_def [symmetric] B_def [symmetric] using e by (rule g)
  qed
qed

section \<open>Properties of the literals of the money evaluator\<close>

lemma isDigit_nat: "isDigit c \<longleftrightarrow> 48 \<le> (of_char c :: nat) \<and> (of_char c :: nat) \<le> 57"
  by (simp add: isDigit_def less_eq_char_def)

lemma isDigit_not_special:
  "isDigit c \<Longrightarrow> c \<noteq> CHR ''.'' \<and> c \<noteq> CHR ''e'' \<and> c \<noteq> CHR ''E''"
  by (auto simp: isDigit_nat)

lemma digit_val_range: "isDigit c \<Longrightarrow> 0 \<le> digit_val c \<and> digit_val c \<le> 9"
proof -
  assume "isDigit c"
  then have "48 \<le> (of_char c :: nat) \<and> (of_char c :: nat) \<le> 57" by (simp add: isDigit_nat)
  then have "48 \<le> int (of_char c) \<and> int (of_char c) \<le> 57" by linarith
  then show ?thesis by (simp add: digit_val_def of_nat_of_char)
qed

lemma digits_val_snoc: "digits_val (xs @ [c]) = 10 * digits_val xs + digit_val c"
  by (simp add: digits_val_def)

lemma digits_val_nonneg: "list_all isDigit xs \<Longrightarrow> 0 \<le> digits_val xs"
proof (induction xs rule: rev_induct)
  case Nil
  then show ?case by (simp add: digits_val_def)
next
  case (snoc c xs)
  then show ?case using digit_val_range [of c] by (simp add: digits_val_snoc)
qed

lemma digits_val_two: "list_all isDigit xs \<Longrightarrow> length xs \<le> 2 \<Longrightarrow> digits_val xs \<le> 99"
proof -
  assume a: "list_all isDigit xs" "length xs \<le> 2"
  then consider "xs = []" | x where "xs = [x]" | x y where "xs = [x, y]"
    by (cases xs rule: list.exhaust; simp) (metis length_0_conv length_Suc_conv le_Suc_eq le_zero_eq Suc_le_mono numeral_2_eq_2 list.exhaust list.size(3,4) not_less_eq_eq)
  then show ?thesis
  proof cases
    case 1
    then show ?thesis by (simp add: digits_val_def)
  next
    case 2
    then show ?thesis using a digit_val_range [of x] by (simp add: digits_val_def)
  next
    case 3
    then show ?thesis using a digit_val_range [of x] digit_val_range [of y]
      by (simp add: digits_val_def)
  qed
qed

lemma numeric_loop_iff:
  "numeric_loop seen s \<longleftrightarrow>
     list_all (\<lambda>c. isDigit c \<or> c = CHR ''.'') s \<and> Count_dot s + (if seen then 1 else 0) \<le> 1"
proof (induction seen s rule: numeric_loop.induct)
  case (1 dotSeen)
  then show ?case by (simp add: Count_dot_def)
next
  case (2 dotSeen c cs)
  have d: "isDigit c \<longleftrightarrow> \<not> (c < CHR ''0'' \<or> CHR ''9'' < c)"
    by (auto simp: isDigit_def)
  have nd: "\<not> isDigit CHR ''.''" by (simp add: isDigit_nat)
  show ?case
  proof (cases "c = CHR ''.''")
    case True
    with 2 nd show ?thesis by (auto simp: Count_dot_def)
  next
    case False
    with 2 d show ?thesis by (auto simp: Count_dot_def)
  qed
qed

lemma isNumericLiteral_iff:
  "isNumericLiteral txt \<longleftrightarrow>
     txt \<noteq> [] \<and> list_all (\<lambda>c. isDigit c \<or> c = CHR ''.'') txt \<and> Count_dot txt \<le> 1"
proof -
  have "\<not> ContainsAny_eE txt" if "list_all (\<lambda>c. isDigit c \<or> c = CHR ''.'') txt"
    using that isDigit_not_special by (auto simp: ContainsAny_eE_def list_all_iff)
  then show ?thesis
    by (auto simp: isNumericLiteral_def numeric_loop_iff)
qed

lemma pad_frac_two:
  "f \<noteq> [] \<Longrightarrow> length f \<le> 2 \<Longrightarrow> pad_frac f = take 2 (f @ ''00'')"
proof -
  assume a: "f \<noteq> []" "length f \<le> 2"
  then consider x where "f = [x]" | x y where "f = [x, y]"
    by (cases f; simp) (metis length_0_conv length_Suc_conv le_Suc_eq le_zero_eq Suc_le_mono numeral_2_eq_2 list.exhaust list.size(3,4) not_less_eq_eq)
  then show ?thesis by cases (simp_all add: pad_frac.simps)
qed

lemma takeWhile_digits_dot:
  "list_all isDigit w \<Longrightarrow> takeWhile (\<lambda>c. c \<noteq> CHR ''.'') (w @ CHR ''.'' # f) = w"
  by (induction w) (auto dest: isDigit_not_special)

lemma dropWhile_digits_dot:
  "list_all isDigit w \<Longrightarrow> dropWhile (\<lambda>c. c \<noteq> CHR ''.'') (w @ CHR ''.'' # f) = CHR ''.'' # f"
  by (induction w) (auto dest: isDigit_not_special)

lemma digits_no_dot: "list_all isDigit w \<Longrightarrow> CHR ''.'' \<notin> set w \<and> filter (\<lambda>c. c = CHR ''.'') w = []"
  by (induction w) (auto dest: isDigit_not_special)

lemma digits_no_e: "list_all isDigit w \<Longrightarrow> CHR ''e'' \<notin> set w \<and> CHR ''E'' \<notin> set w"
  by (induction w) (auto dest: isDigit_not_special)

lemma ParseInt_digits:
  "list_all isDigit s \<Longrightarrow> s \<noteq> [] \<Longrightarrow>
     ParseInt s = (if 2 ^ 63 \<le> digits_val s then None else Some (word_of_int (digits_val s)))"
  by (simp add: ParseInt_def allDigits_def)

lemma parse_parts:
  assumes w: "list_all isDigit w" and f: "list_all isDigit f" and l: "length f \<le> 2"
  defines "ip \<equiv> (if w = [] then ''0'' else w)"
    and "fp \<equiv> pad_frac (if f = [] then ''0'' else f)"
  shows "(case ParseInt ip of
            None \<Rightarrow> Inl (InvalidMoneyNumberParse txt)
          | Some whole \<Rightarrow>
              (case ParseInt fp of
                 None \<Rightarrow> Inl (InvalidMoneyNumberParse txt)
               | Some fracN \<Rightarrow>
                   (case mulInt64 whole moneyScale of
                      Inl err \<Rightarrow> Inl (MoneyValueOverflow txt)
                    | Inr wholeCents \<Rightarrow> addInt64 wholeCents fracN)))
         = (if 2 ^ 63 \<le> digits_val w then Inl (InvalidMoneyNumberParse txt)
            else if 2 ^ 63 \<le> digits_val w * 100 then Inl (MoneyValueOverflow txt)
            else if 2 ^ 63 \<le> cents_of w f then Inl OverflowAdd
            else Inr (word_of_int (cents_of w f)))"
proof -
  have ipd: "list_all isDigit ip" "ip \<noteq> []" using w by (auto simp: ip_def isDigit_nat)
  have ipv: "digits_val ip = digits_val w" by (simp add: ip_def digits_val_def digit_val_def)
  have f0: "list_all isDigit (if f = [] then ''0'' else f)" "(if f = [] then ''0'' else f) \<noteq> []"
    "length (if f = [] then ''0'' else f) \<le> 2"
    using f l by (auto simp: isDigit_nat)
  have fpe: "fp = take 2 ((if f = [] then ''0'' else f) @ ''00'')"
    unfolding fp_def using f0(2,3) by (rule pad_frac_two)
  have z: "isDigit CHR ''0''" by (simp add: isDigit_nat)
  have fpd: "list_all isDigit fp" "fp \<noteq> []" "length fp \<le> 2"
    using f0 z by (auto simp: fpe list_all_iff dest: in_set_takeD)
  have fpv: "digits_val fp = digits_val (take 2 (f @ ''00''))"
    by (cases "f = []") (simp_all add: fpe digits_val_def digit_val_def)
  have W: "0 \<le> digits_val w" using w by (rule digits_val_nonneg)
  have F: "0 \<le> digits_val fp" "digits_val fp \<le> 99"
    using fpd digits_val_nonneg digits_val_two by auto
  have pf: "ParseInt fp = Some (word_of_int (digits_val fp))"
    using F by (simp add: ParseInt_digits [OF fpd(1,2)])
  have sf: "sint (word_of_int (digits_val fp) :: int64) = digits_val fp"
    using F by (intro sint_word_of_int64) simp_all
  show ?thesis
  proof (cases "2 ^ 63 \<le> digits_val w")
    case True
    then show ?thesis by (simp add: ParseInt_digits [OF ipd] ipv)
  next
    case False
    then have pi: "ParseInt ip = Some (word_of_int (digits_val w))"
      by (simp add: ParseInt_digits [OF ipd] ipv)
    have sw: "sint (word_of_int (digits_val w) :: int64) = digits_val w"
      using False W by (intro sint_word_of_int64) simp_all
    show ?thesis
    proof (cases "2 ^ 63 \<le> digits_val w * 100")
      case True
      then have "\<not> in_int64 (digits_val w * 100)" by (simp add: in_int64_def)
      then show ?thesis using \<open>\<not> 2 ^ 63 \<le> digits_val w\<close> True sw
        by (simp add: pi pf mulInt64_exact moneyScale_def)
    next
      case nov: False
      then have r: "in_int64 (digits_val w * 100)" using W by (simp add: in_int64_def)
      define wc :: int64 where "wc = word_of_int (digits_val w * 100)"
      have m: "mulInt64 (word_of_int (digits_val w)) moneyScale = Inr wc"
        using r sw by (simp add: mulInt64_exact moneyScale_def wc_def)
      have swc: "sint wc = digits_val w * 100"
        unfolding wc_def using r by (intro sint_word_of_int64) (simp_all add: in_int64_def)
      have c: "cents_of w f = digits_val w * 100 + digits_val fp"
        by (simp add: cents_of_def fpv)
      have "addInt64 wc (word_of_int (digits_val fp))
          = (if 2 ^ 63 \<le> cents_of w f then Inl OverflowAdd else Inr (word_of_int (cents_of w f)))"
        using W F by (simp add: addInt64_exact swc sf c in_int64_def)
      then show ?thesis using \<open>\<not> 2 ^ 63 \<le> digits_val w\<close> nov
        by (simp add: pi pf m)
    qed
  qed
qed

lemma parseCents_dot:
  assumes w: "list_all isDigit w" and f: "list_all isDigit f"
  shows "parseCents (w @ CHR ''.'' # f) =
     (if 2 < length f then Inl (TooManyDecimalPlaces (w @ CHR ''.'' # f))
      else if 2 ^ 63 \<le> digits_val w then Inl (InvalidMoneyNumberParse (w @ CHR ''.'' # f))
      else if 2 ^ 63 \<le> digits_val w * 100 then Inl (MoneyValueOverflow (w @ CHR ''.'' # f))
      else if 2 ^ 63 \<le> cents_of w f then Inl OverflowAdd
      else Inr (word_of_int (cents_of w f)))"
proof -
  define tx where "tx = w @ CHR ''.'' # f"
  have e: "\<not> ContainsAny_eE tx"
    using digits_no_e [OF w] digits_no_e [OF f] by (simp add: ContainsAny_eE_def tx_def)
  have c: "Count_dot tx = 1"
    using digits_no_dot [OF w] digits_no_dot [OF f] by (simp add: Count_dot_def tx_def)
  have s: "SplitN_dot tx = [w, f]"
    using takeWhile_digits_dot [OF w, of f] dropWhile_digits_dot [OF w, of f]
    by (simp add: SplitN_dot_def tx_def)
  have z: "isDigit CHR ''0''" by (simp add: isDigit_nat)
  have a: "allDigits (if w = [] then ''0'' else w)" "allDigits (if f = [] then ''0'' else f)"
    using w f z by (auto simp: allDigits_def)
  have lf: "2 < length (if f = [] then ''0'' else f) \<longleftrightarrow> 2 < length f" by simp
  show ?thesis
  proof (cases "2 < length f")
    case True
    have n: "tx \<noteq> []" by (simp add: tx_def)
    have "parseCents tx = Inl (TooManyDecimalPlaces tx)"
      using e c s a True n
      by (cases "w = []"; cases "f = []") (simp_all add: parseCents_def Let_def)
    then show ?thesis using True by (simp add: tx_def)
  next
    case False
    then have l: "length f \<le> 2" by simp
    have n: "tx \<noteq> []" by (simp add: tx_def)
    have "parseCents tx = (case ParseInt (if w = [] then ''0'' else w) of
            None \<Rightarrow> Inl (InvalidMoneyNumberParse tx)
          | Some whole \<Rightarrow>
              (case ParseInt (pad_frac (if f = [] then ''0'' else f)) of
                 None \<Rightarrow> Inl (InvalidMoneyNumberParse tx)
               | Some fracN \<Rightarrow>
                   (case mulInt64 whole moneyScale of
                      Inl err \<Rightarrow> Inl (MoneyValueOverflow tx)
                    | Inr wholeCents \<Rightarrow> addInt64 wholeCents fracN)))"
      using e c s a False n
      by (cases "w = []"; cases "f = []") (simp_all add: parseCents_def Let_def)
    then show ?thesis using False parse_parts [OF w f l, of tx]
      by (simp add: tx_def [symmetric])
  qed
qed

lemma parseCents_nodot:
  assumes w: "list_all isDigit w" and n: "w \<noteq> []"
  shows "parseCents w =
     (if 2 ^ 63 \<le> digits_val w then Inl (InvalidMoneyNumberParse w)
      else if 2 ^ 63 \<le> digits_val w * 100 then Inl (MoneyValueOverflow w)
      else if 2 ^ 63 \<le> cents_of w [] then Inl OverflowAdd
      else Inr (word_of_int (cents_of w [])))"
proof -
  have e: "\<not> ContainsAny_eE w"
    using digits_no_e [OF w] by (simp add: ContainsAny_eE_def)
  have c: "Count_dot w = 0"
    using digits_no_dot [OF w] by (simp add: Count_dot_def)
  have s: "SplitN_dot w = [w]"
    using digits_no_dot [OF w] by (simp add: SplitN_dot_def)
  have z: "isDigit CHR ''0''" by (simp add: isDigit_nat)
  have a: "allDigits w" using w n by (simp add: allDigits_def)
  have a0: "allDigits ''0''" using z by (simp add: allDigits_def)
  have "parseCents w = (case ParseInt (if w = [] then ''0'' else w) of
            None \<Rightarrow> Inl (InvalidMoneyNumberParse w)
          | Some whole \<Rightarrow>
              (case ParseInt (pad_frac (if ([]::string) = [] then ''0'' else [])) of
                 None \<Rightarrow> Inl (InvalidMoneyNumberParse w)
               | Some fracN \<Rightarrow>
                   (case mulInt64 whole moneyScale of
                      Inl err \<Rightarrow> Inl (MoneyValueOverflow w)
                    | Inr wholeCents \<Rightarrow> addInt64 wholeCents fracN)))"
    using e c s a a0 n by (simp add: parseCents_def Let_def)
  then show ?thesis using n parse_parts [OF w, of "[]" w] by simp
qed

section \<open>Properties of the money evaluator and of the lexer\<close>

lemma money_loop_append:
  "evalRPNMoney_loop st (pre @ ts) =
     (case money_steps st pre of Inl err \<Rightarrow> Inl err | Inr st' \<Rightarrow> evalRPNMoney_loop st' ts)"
  by (induction pre arbitrary: st) (auto split: sum.splits)

lemma money_caret_step:
  "Typ t = TOp \<Longrightarrow> Text t = ''^'' \<Longrightarrow> evalRPNMoney_step st t = Inl (OperatorNotSupported ''^'')"
  by (simp add: evalRPNMoney_step_def money_TOp_def)

lemma money_loop_caret:
  "\<exists>t\<in>set rpn. Typ t = TOp \<and> Text t = ''^'' \<Longrightarrow> \<exists>e. evalRPNMoney_loop st rpn = Inl e"
proof (induction rpn arbitrary: st)
  case Nil
  then show ?case by simp
next
  case (Cons t ts)
  show ?case
  proof (cases "evalRPNMoney_step st t")
    case (Inl e)
    then show ?thesis by simp
  next
    case (Inr st')
    then have "\<not> (Typ t = TOp \<and> Text t = ''^'')" using money_caret_step [of t st] by auto
    with Cons.prems have "\<exists>t\<in>set ts. Typ t = TOp \<and> Text t = ''^''" by auto
    from Cons.IH [OF this, of st'] Inr show ?thesis by simp
  qed
qed

lemma ident_start_facts:
  "isIdentStart c \<Longrightarrow> \<not> IsSpace c \<and> c \<noteq> CHR '','' \<and> c \<noteq> CHR ''('' \<and> c \<noteq> CHR '')'' \<and> \<not> isOpByte c"
  by (auto simp: isIdentStart_def IsSpace_def isOpByte_def less_eq_char_def)

lemma takeWhile_ident:
  "list_all isIdentContinue cs \<Longrightarrow> rest = [] \<or> \<not> isIdentContinue (hd rest) \<Longrightarrow>
     takeWhile isIdentContinue (cs @ rest) = cs \<and> dropWhile isIdentContinue (cs @ rest) = rest"
  by (induction cs) (auto simp: takeWhile_eq_Nil_iff dropWhile_eq_self_iff)

lemma tokenize_constant:
  assumes "isIdentStart c" "list_all isIdentContinue cs" "rest = [] \<or> \<not> isIdentContinue (hd rest)"
    and "constants ops (ToLower (c # cs)) = Some v"
  shows "tokenize_loop ops tokens (c # cs @ rest) =
     tokenize_loop ops (tokens @ [\<lparr>Typ = TNumber, Text = ToLower (c # cs), Value = v, Arity = 0\<rparr>]) rest"
  using ident_start_facts [OF assms(1)] assms(1,4) takeWhile_ident [OF assms(2,3)]
  by (simp add: mk_token_def)

lemma tokenize_function:
  assumes "isIdentStart c" "list_all isIdentContinue cs" "rest = [] \<or> \<not> isIdentContinue (hd rest)"
    and "constants ops (ToLower (c # cs)) = None"
  shows "tokenize_loop ops tokens (c # cs @ rest) =
     tokenize_loop ops (tokens @ [\<lparr>Typ = TFunc, Text = ToLower (c # cs), Value = fzero ops, Arity = 0\<rparr>]) rest"
  using ident_start_facts [OF assms(1)] assms(1,4) takeWhile_ident [OF assms(2,3)]
  by (simp add: mk_token_def)

lemma constants_iff:
  "constants ops name = Some v \<longleftrightarrow> (name = ''pi'' \<and> v = Pi ops) \<or> (name = ''e'' \<and> v = E ops)"
  by (auto simp: constants_def)

section \<open>Properties of the parser and of the variadic functions\<close>







lemma toRPN_two_operators:
  assumes "Typ a = TNumber" "Typ b = TNumber" "Typ c = TNumber" "Typ o1 = TOp" "Typ o2 = TOp"
  shows "toRPN [a, o1, b, o2, c] =
     Inr (if precedence (Text o2) < precedence (Text o1)
             \<or> (precedence (Text o2) = precedence (Text o1) \<and> \<not> rightAssociative (Text o2))
          then [a, b, o1, c, o2] else [a, b, c, o2, o1])"
  using assms
  by (auto simp: toRPN_def toRPN_step_def step_TOp_def unary_rewrite_def is_unary_position_def Let_def)

lemma toRPN_step_TOp:
  assumes "Typ t = TOp"
  shows "toRPN_step st t ts =
     Inr (st\<lparr>out := snd (op_pop (unary_rewrite (prev st) t) (stack st) (out st)),
            stack := unary_rewrite (prev st) t # fst (op_pop (unary_rewrite (prev st) t) (stack st) (out st))\<rparr>)"
  using assms by (simp add: toRPN_step_def step_TOp_def Let_def split_beta)

section \<open>Evaluation of concrete expressions\<close>

lemmas lexer_defs = tokenize_def isOpByte_def isIdentStart_def isDigit_def isIdentContinue_def
  IsSpace_def lower_byte_def ToLower_def mk_token_def constants_def char_of_def bit_Suc_0_iff

lemmas parser_defs = toRPN_def toRPN_step_def step_TFunc_def step_TLParen_def step_TComma_def
  step_TRParen_def step_TOp_def prev_is_def unary_rewrite_def is_unary_position_def
  precedence_def rightAssociative_def Let_def

lemmas float_eval_defs = evalRPN_def evalRPN_step_def eval_TFunc_def eval_TOp_def pop_def
  popN_def binary_op_def unary_names_def unary_fn_def

lemmas exact_defs = exact_ops_def parse_decimal_def digits_val_def digit_val_def
  exact_pow_def allDigits_def

lemmas money_eval_defs = evalRPNMoney_def evalRPNMoney_step_def money_TFunc_def money_TOp_def
  money_binary_def pop_def popN_def isNumericLiteral_def ContainsAny_eE_def parseCents_def
  Count_dot_def SplitN_dot_def ParseInt_def pad_frac.simps mulInt64_exact addInt64_exact subInt64_exact
  in_int64_def moneyScale_def percentScale_def divRound_def quo64_def rem64_def absUint64_def
  signed_divide_int_def signed_modulo_int_def word_sless_alt word_sle_eq

section \<open>The percent operator of the float evaluator\<close>

text \<open>
  C5. In the float evaluator the operator \<open>%\<close> pops \<open>b\<close> (the top of the stack), then
  \<open>a\<close>, and pushes \<open>a * b / 100\<close>, for every pair of operands and whatever the
  floating-point operations are. It is not the remainder of \<open>a\<close> by \<open>b\<close>: on the
  reference instance \<open>5 % 2\<close> evaluates to one tenth, where the remainder is 1.
\<close>

theorem percent_is_percentage_of:
  "evalRPN_step ops (b # a # st) \<lparr>Typ = TOp, Text = ''%'', Value = v, Arity = n\<rparr>
     = Inr (fdiv ops (fmul ops a b) (fhundred ops) # st)
   \<and> evalRPN ops [\<lparr>Typ = TNumber, Text = ta, Value = a, Arity = 0\<rparr>,
                   \<lparr>Typ = TNumber, Text = tb, Value = b, Arity = 0\<rparr>,
                   \<lparr>Typ = TOp, Text = ''%'', Value = v, Arity = n\<rparr>]
     = Inr (fdiv ops (fmul ops a b) (fhundred ops))
   \<and> EvalExpression exact_ops ''5%2'' = Inr (1 / 10)
   \<and> EvalExpression exact_ops ''7.5%2'' = Inr (15 / 100)"
proof (intro conjI)
  show "evalRPN_step ops (b # a # st) \<lparr>Typ = TOp, Text = ''%'', Value = v, Arity = n\<rparr>
     = Inr (fdiv ops (fmul ops a b) (fhundred ops) # st)"
    by (simp add: evalRPN_step_def eval_TOp_def pop_def binary_op_def)
  show "evalRPN ops [\<lparr>Typ = TNumber, Text = ta, Value = a, Arity = 0\<rparr>,
                   \<lparr>Typ = TNumber, Text = tb, Value = b, Arity = 0\<rparr>,
                   \<lparr>Typ = TOp, Text = ''%'', Value = v, Arity = n\<rparr>]
     = Inr (fdiv ops (fmul ops a b) (fhundred ops))"
    by (simp add: evalRPN_def evalRPN_step_def eval_TOp_def pop_def binary_op_def)
  show "EvalExpression exact_ops ''5%2'' = Inr (1 / 10)"
    by (simp add: EvalExpression_def lexer_defs parser_defs float_eval_defs exact_defs)
  show "EvalExpression exact_ops ''7.5%2'' = Inr (15 / 100)"
    by (simp add: EvalExpression_def lexer_defs parser_defs float_eval_defs exact_defs)
qed


section \<open>Precedence and associativity\<close>

text \<open>
  C2. The table of \<open>precedence\<close> and \<open>rightAssociative\<close>: the unary markers have
  precedence 4 and \<open>^\<close> has 3, both right-associative; \<open>*\<close>, \<open>/\<close> and \<open>%\<close> have 2 and
  binary \<open>+\<close> and \<open>-\<close> have 1, all left-associative. The parser applies it: at an
  operator token it pops, by \<open>op_pop\<close>, every operator on top of the stack that has a
  higher precedence, or the same precedence when the incoming operator is
  left-associative, and then pushes the incoming operator. So for numbers \<open>a\<close>, \<open>b\<close>, \<open>c\<close>
  and any two operators, \<open>a o1 b o2 c\<close> becomes \<open>a b o1 c o2\<close> when \<open>o1\<close> binds at least as
  tightly by this rule, and \<open>a b c o2 o1\<close> otherwise. With it the parser puts \<open>2^3^2\<close>,
  \<open>2+3*4\<close> and \<open>10-6/3\<close> in the postfix orders \<open>2 3 2 ^ ^\<close>, \<open>2 3 4 * +\<close> and
  \<open>10 6 3 / -\<close>, and the float evaluator yields 512, 14 and 8 on the reference instance;
  \<open>2*3+4\<close>, \<open>10-6-3\<close>, \<open>8/4/2\<close>, \<open>2^3*2\<close> and \<open>-2^2\<close>, where an operator is popped, yield
  10, 1, 1, 16 and 4.
\<close>

theorem precedence_table_and_examples:
  "precedence ''NEG'' = 4 \<and> precedence ''POS'' = 4 \<and> precedence ''^'' = 3
   \<and> precedence ''*'' = 2 \<and> precedence ''/'' = 2 \<and> precedence ''%'' = 2
   \<and> precedence ''+'' = 1 \<and> precedence ''-'' = 1
   \<and> rightAssociative ''NEG'' \<and> rightAssociative ''POS'' \<and> rightAssociative ''^''
   \<and> \<not> rightAssociative ''*'' \<and> \<not> rightAssociative ''/'' \<and> \<not> rightAssociative ''%''
   \<and> \<not> rightAssociative ''+'' \<and> \<not> rightAssociative ''-''
   \<and> op_pop t (\<lparr>Typ = TOp, Text = x, Value = v, Arity = n\<rparr> # rest) outp
       = (if precedence (Text t) < precedence x
             \<or> (precedence (Text t) = precedence x \<and> \<not> rightAssociative (Text t))
          then op_pop t rest (outp @ [\<lparr>Typ = TOp, Text = x, Value = v, Arity = n\<rparr>])
          else (\<lparr>Typ = TOp, Text = x, Value = v, Arity = n\<rparr> # rest, outp))
   \<and> (Typ tp \<noteq> TOp \<longrightarrow> op_pop t (tp # rest) outp = (tp # rest, outp))
   \<and> op_pop t [] outp = ([], outp)
   \<and> (Typ u = TOp \<longrightarrow>
        toRPN_step st u ts =
          Inr (st\<lparr>out := snd (op_pop (unary_rewrite (prev st) u) (stack st) (out st)),
                 stack := unary_rewrite (prev st) u
                          # fst (op_pop (unary_rewrite (prev st) u) (stack st) (out st))\<rparr>))
   \<and> (Typ a = TNumber \<and> Typ b = TNumber \<and> Typ c = TNumber \<and> Typ o1 = TOp \<and> Typ o2 = TOp \<longrightarrow>
        toRPN [a, o1, b, o2, c] =
          Inr (if precedence (Text o2) < precedence (Text o1)
                  \<or> (precedence (Text o2) = precedence (Text o1) \<and> \<not> rightAssociative (Text o2))
               then [a, b, o1, c, o2] else [a, b, c, o2, o1]))
   \<and> map_sum id (map Text) (case_sum Inl toRPN (tokenize exact_ops ''2^3^2''))
       = Inr [''2'', ''3'', ''2'', ''^'', ''^'']
   \<and> map_sum id (map Text) (case_sum Inl toRPN (tokenize exact_ops ''2+3*4''))
       = Inr [''2'', ''3'', ''4'', ''*'', ''+'']
   \<and> map_sum id (map Text) (case_sum Inl toRPN (tokenize exact_ops ''10-6/3''))
       = Inr [''10'', ''6'', ''3'', ''/'', ''-'']
   \<and> EvalExpression exact_ops ''2^3^2'' = Inr 512
   \<and> EvalExpression exact_ops ''2+3*4'' = Inr 14
   \<and> EvalExpression exact_ops ''10-6/3'' = Inr 8
   \<and> EvalExpression exact_ops ''2*3+4'' = Inr 10
   \<and> EvalExpression exact_ops ''10-6-3'' = Inr 1
   \<and> EvalExpression exact_ops ''8/4/2'' = Inr 1
   \<and> EvalExpression exact_ops ''2^3*2'' = Inr 16
   \<and> EvalExpression exact_ops ''-2^2'' = Inr 4"
proof -
  have t: "precedence ''NEG'' = 4 \<and> precedence ''POS'' = 4 \<and> precedence ''^'' = 3
     \<and> precedence ''*'' = 2 \<and> precedence ''/'' = 2 \<and> precedence ''%'' = 2
     \<and> precedence ''+'' = 1 \<and> precedence ''-'' = 1"
    by (simp add: precedence_def)
  have a: "rightAssociative ''NEG'' \<and> rightAssociative ''POS'' \<and> rightAssociative ''^''
     \<and> \<not> rightAssociative ''*'' \<and> \<not> rightAssociative ''/'' \<and> \<not> rightAssociative ''%''
     \<and> \<not> rightAssociative ''+'' \<and> \<not> rightAssociative ''-''"
    by (simp add: rightAssociative_def)
  have p: "op_pop t (\<lparr>Typ = TOp, Text = x, Value = v, Arity = n\<rparr> # rest) outp
       = (if precedence (Text t) < precedence x
             \<or> (precedence (Text t) = precedence x \<and> \<not> rightAssociative (Text t))
          then op_pop t rest (outp @ [\<lparr>Typ = TOp, Text = x, Value = v, Arity = n\<rparr>])
          else (\<lparr>Typ = TOp, Text = x, Value = v, Arity = n\<rparr> # rest, outp))"
    by (auto simp: Let_def)
  have p2: "Typ tp \<noteq> TOp \<longrightarrow> op_pop t (tp # rest) outp = (tp # rest, outp)"
    by simp
  have p3: "op_pop t [] outp = ([], outp)"
    by simp
  have s: "Typ u = TOp \<longrightarrow>
        toRPN_step st u ts =
          Inr (st\<lparr>out := snd (op_pop (unary_rewrite (prev st) u) (stack st) (out st)),
                 stack := unary_rewrite (prev st) u
                          # fst (op_pop (unary_rewrite (prev st) u) (stack st) (out st))\<rparr>)"
    by (simp add: toRPN_step_TOp)
  have w: "Typ a = TNumber \<and> Typ b = TNumber \<and> Typ c = TNumber \<and> Typ o1 = TOp \<and> Typ o2 = TOp \<longrightarrow>
        toRPN [a, o1, b, o2, c] =
          Inr (if precedence (Text o2) < precedence (Text o1)
                  \<or> (precedence (Text o2) = precedence (Text o1) \<and> \<not> rightAssociative (Text o2))
               then [a, b, o1, c, o2] else [a, b, c, o2, o1])"
    using toRPN_two_operators [of a b c o1 o2] by blast
  have r1: "map_sum id (map Text) (case_sum Inl toRPN (tokenize exact_ops ''2^3^2''))
       = Inr [''2'', ''3'', ''2'', ''^'', ''^'']"
    by (simp add: lexer_defs parser_defs exact_defs)
  have r2: "map_sum id (map Text) (case_sum Inl toRPN (tokenize exact_ops ''2+3*4''))
       = Inr [''2'', ''3'', ''4'', ''*'', ''+'']"
    by (simp add: lexer_defs parser_defs exact_defs)
  have r3: "map_sum id (map Text) (case_sum Inl toRPN (tokenize exact_ops ''10-6/3''))
       = Inr [''10'', ''6'', ''3'', ''/'', ''-'']"
    by (simp add: lexer_defs parser_defs exact_defs)
  have e1: "EvalExpression exact_ops ''2^3^2'' = Inr 512"
    by (simp add: EvalExpression_def lexer_defs parser_defs float_eval_defs exact_defs)
  have e2: "EvalExpression exact_ops ''2+3*4'' = Inr 14"
    by (simp add: EvalExpression_def lexer_defs parser_defs float_eval_defs exact_defs)
  have e3: "EvalExpression exact_ops ''10-6/3'' = Inr 8"
    by (simp add: EvalExpression_def lexer_defs parser_defs float_eval_defs exact_defs)
  have e4: "EvalExpression exact_ops ''2*3+4'' = Inr 10"
    by (simp add: EvalExpression_def lexer_defs parser_defs float_eval_defs exact_defs)
  have e5: "EvalExpression exact_ops ''10-6-3'' = Inr 1"
    by (simp add: EvalExpression_def lexer_defs parser_defs float_eval_defs exact_defs)
  have e6: "EvalExpression exact_ops ''8/4/2'' = Inr 1"
    by (simp add: EvalExpression_def lexer_defs parser_defs float_eval_defs exact_defs)
  have e7: "EvalExpression exact_ops ''2^3*2'' = Inr 16"
    by (simp add: EvalExpression_def lexer_defs parser_defs float_eval_defs exact_defs)
  have e8: "EvalExpression exact_ops ''-2^2'' = Inr 4"
    by (simp add: EvalExpression_def lexer_defs parser_defs float_eval_defs exact_defs)
  from t a p p2 p3 s w r1 r2 r3 e1 e2 e3 e4 e5 e6 e7 e8 show ?thesis by blast
qed

theorem precedence_table_and_examples_witness:
  "Typ (mk_token exact_ops TLParen ''('') \<noteq> TOp
   \<and> op_pop (mk_token exact_ops TOp ''+'') [mk_token exact_ops TLParen ''(''] []
       = ([mk_token exact_ops TLParen ''(''], [])
   \<and> Typ (mk_token exact_ops TOp ''+'') = TOp
   \<and> toRPN_step \<lparr>out = [mk_token exact_ops TNumber ''2'', mk_token exact_ops TNumber ''3''],
         stack = [mk_token exact_ops TOp ''*''],
         prev = Some (mk_token exact_ops TNumber ''3''), funcParen = [], argCount = []\<rparr>
       (mk_token exact_ops TOp ''+'') []
     = Inr \<lparr>out = [mk_token exact_ops TNumber ''2'', mk_token exact_ops TNumber ''3'',
                   mk_token exact_ops TOp ''*''],
         stack = [mk_token exact_ops TOp ''+''],
         prev = Some (mk_token exact_ops TNumber ''3''), funcParen = [], argCount = []\<rparr>
   \<and> Typ (mk_token exact_ops TNumber ''2'') = TNumber
   \<and> toRPN [mk_token exact_ops TNumber ''2'', mk_token exact_ops TOp ''*'',
             mk_token exact_ops TNumber ''3'', mk_token exact_ops TOp ''+'',
             mk_token exact_ops TNumber ''4'']
     = Inr [mk_token exact_ops TNumber ''2'', mk_token exact_ops TNumber ''3'',
            mk_token exact_ops TOp ''*'', mk_token exact_ops TNumber ''4'',
            mk_token exact_ops TOp ''+'']"
  using precedence_table_and_examples [where
      tp = "mk_token exact_ops TLParen ''(''" and t = "mk_token exact_ops TOp ''+''"
      and rest = "[]" and outp = "[]"
      and u = "mk_token exact_ops TOp ''+''"
      and st = "\<lparr>out = [mk_token exact_ops TNumber ''2'', mk_token exact_ops TNumber ''3''],
         stack = [mk_token exact_ops TOp ''*''],
         prev = Some (mk_token exact_ops TNumber ''3''), funcParen = [], argCount = []\<rparr>"
      and ts = "[]"
      and a = "mk_token exact_ops TNumber ''2''" and ?o1.0 = "mk_token exact_ops TOp ''*''"
      and b = "mk_token exact_ops TNumber ''3''" and ?o2.0 = "mk_token exact_ops TOp ''+''"
      and c = "mk_token exact_ops TNumber ''4''"
      and x = "''*''" and v = 0 and n = 0]
  by (simp add: mk_token_def exact_ops_def unary_rewrite_def is_unary_position_def
      precedence_def rightAssociative_def)

section \<open>Unary signs\<close>

text \<open>
  C3. A \<open>+\<close> or \<open>-\<close> token is unary exactly when there is no previous token or the
  previous token is an operator, a left parenthesis or a comma. The parser then pushes
  it on the operator stack with the text \<open>POS\<close> or \<open>NEG\<close>, of precedence 4 and
  right-associative; otherwise it pushes it unchanged, with the binary precedence 1.
  Hence \<open>(-3)+5\<close>, \<open>2*-3\<close>, \<open>-(3+4)*2\<close> and \<open>2^-3\<close> evaluate to 2, -6, -14 and 0.125 on
  the reference instance.
\<close>

theorem unary_sign_rewriting:
  "(Typ t = TOp \<and> (Text t = ''+'' \<or> Text t = ''-'') \<longrightarrow>
      (\<exists>st'. toRPN_step st t ts = Inr st' \<and> stack st' \<noteq> []
         \<and> tl (stack st') = fst (op_pop (hd (stack st')) (stack st) (out st))
         \<and> (if prev st = None \<or> prev_is TOp (prev st) \<or> prev_is TLParen (prev st)
                \<or> prev_is TComma (prev st)
             then hd (stack st') = t\<lparr>Text := (if Text t = ''-'' then ''NEG'' else ''POS'')\<rparr>
                  \<and> precedence (Text (hd (stack st'))) = 4
                  \<and> rightAssociative (Text (hd (stack st')))
             else hd (stack st') = t
                  \<and> precedence (Text (hd (stack st'))) = 1
                  \<and> \<not> rightAssociative (Text (hd (stack st'))))))
   \<and> EvalExpression exact_ops ''(-3)+5'' = Inr 2
   \<and> EvalExpression exact_ops ''2*-3'' = Inr (- 6)
   \<and> EvalExpression exact_ops ''-(3+4)*2'' = Inr (- 14)
   \<and> EvalExpression exact_ops ''2^-3'' = Inr 0.125"
proof (intro conjI impI)
  assume a: "Typ t = TOp \<and> (Text t = ''+'' \<or> Text t = ''-'')"
  define t' where "t' = unary_rewrite (prev st) t"
  obtain stack' out' where p: "op_pop t' (stack st) (out st) = (stack', out')"
    by (cases "op_pop t' (stack st) (out st)")
  have s: "toRPN_step st t ts = Inr (st\<lparr>out := out', stack := t' # stack'\<rparr>)"
    using a p by (simp add: toRPN_step_def step_TOp_def t'_def Let_def)
  have u: "is_unary_position (prev st) \<longleftrightarrow>
      prev st = None \<or> prev_is TOp (prev st) \<or> prev_is TLParen (prev st) \<or> prev_is TComma (prev st)"
    by (cases "prev st") (simp_all add: is_unary_position_def prev_is_def)
  show "\<exists>st'. toRPN_step st t ts = Inr st' \<and> stack st' \<noteq> []
         \<and> tl (stack st') = fst (op_pop (hd (stack st')) (stack st) (out st))
         \<and> (if prev st = None \<or> prev_is TOp (prev st) \<or> prev_is TLParen (prev st)
                \<or> prev_is TComma (prev st)
             then hd (stack st') = t\<lparr>Text := (if Text t = ''-'' then ''NEG'' else ''POS'')\<rparr>
                  \<and> precedence (Text (hd (stack st'))) = 4
                  \<and> rightAssociative (Text (hd (stack st')))
             else hd (stack st') = t
                  \<and> precedence (Text (hd (stack st'))) = 1
                  \<and> \<not> rightAssociative (Text (hd (stack st'))))"
    unfolding s using a p u
    by (auto simp: t'_def unary_rewrite_def precedence_def rightAssociative_def)
next
  show "EvalExpression exact_ops ''(-3)+5'' = Inr 2"
    by (simp add: EvalExpression_def lexer_defs parser_defs float_eval_defs exact_defs)
  show "EvalExpression exact_ops ''2*-3'' = Inr (- 6)"
    by (simp add: EvalExpression_def lexer_defs parser_defs float_eval_defs exact_defs)
  show "EvalExpression exact_ops ''-(3+4)*2'' = Inr (- 14)"
    by (simp add: EvalExpression_def lexer_defs parser_defs float_eval_defs exact_defs)
  show "EvalExpression exact_ops ''2^-3'' = Inr 0.125"
    by (simp add: EvalExpression_def lexer_defs parser_defs float_eval_defs exact_defs)
qed

theorem unary_sign_rewriting_witness:
  "Typ \<lparr>Typ = TOp, Text = ''-'', Value = 0::real, Arity = 0\<rparr> = TOp
   \<and> (\<exists>st'. toRPN_step \<lparr>out = [], stack = [], prev = None, funcParen = [], argCount = []\<rparr>
          \<lparr>Typ = TOp, Text = ''-'', Value = 0::real, Arity = 0\<rparr> [] = Inr st'
        \<and> hd (stack st') = \<lparr>Typ = TOp, Text = ''NEG'', Value = 0, Arity = 0\<rparr>
        \<and> precedence (Text (hd (stack st'))) = 4)"
  using unary_sign_rewriting [of "\<lparr>Typ = TOp, Text = ''-'', Value = 0::real, Arity = 0\<rparr>"
      "\<lparr>out = [], stack = [], prev = None, funcParen = [], argCount = []\<rparr>" "[]"]
  by auto

section \<open>Malformed input\<close>

text \<open>
  C8. Each malformed input fails in its own way. \<open>sin\<close>, a function name with no
  parenthesis after it, fails in the parser with "function must be called with
  parentheses", and \<open>1..2\<close> fails in the lexer with "invalid number near", both for any
  floating-point operations. \<open>(2+3\<close> fails with "mismatched parentheses" and \<open>2,3\<close>, a
  comma outside a call, with "comma must appear inside function arguments"; these two
  need \<open>ParseFloat\<close> to accept the literals \<open>2\<close> and \<open>3\<close>, as it does.
\<close>

theorem malformed_input_errors:
  "EvalExpression ops ''sin'' = Inl (FunctionMustBeCalled ''sin'')
   \<and> EvalExpression ops ''1..2'' = Inl (InvalidNumberNear ''1..'')
   \<and> (ParseFloat ops ''2'' \<noteq> None \<and> ParseFloat ops ''3'' \<noteq> None \<longrightarrow>
        EvalExpression ops ''(2+3'' = Inl MismatchedParentheses
        \<and> EvalExpression ops ''2,3'' = Inl CommaOutsideArguments)"
proof (intro conjI impI)
  show "EvalExpression ops ''sin'' = Inl (FunctionMustBeCalled ''sin'')"
    by (simp add: EvalExpression_def lexer_defs parser_defs)
  show "EvalExpression ops ''1..2'' = Inl (InvalidNumberNear ''1..'')"
    by (simp add: EvalExpression_def lexer_defs)
next
  assume "ParseFloat ops ''2'' \<noteq> None \<and> ParseFloat ops ''3'' \<noteq> None"
  then obtain a b where ab: "ParseFloat ops ''2'' = Some a" "ParseFloat ops ''3'' = Some b"
    by auto
  show "EvalExpression ops ''(2+3'' = Inl MismatchedParentheses"
    by (simp add: EvalExpression_def lexer_defs parser_defs ab)
  show "EvalExpression ops ''2,3'' = Inl CommaOutsideArguments"
    by (simp add: EvalExpression_def lexer_defs parser_defs ab)
qed

theorem malformed_input_errors_witness:
  "ParseFloat exact_ops ''2'' \<noteq> None \<and> ParseFloat exact_ops ''3'' \<noteq> None
   \<and> EvalExpression exact_ops ''(2+3'' = Inl MismatchedParentheses
   \<and> EvalExpression exact_ops ''2,3'' = Inl CommaOutsideArguments
   \<and> EvalExpression exact_ops ''sin'' = Inl (FunctionMustBeCalled ''sin'')
   \<and> EvalExpression exact_ops ''1..2'' = Inl (InvalidNumberNear ''1..'')"
proof -
  have h: "ParseFloat exact_ops ''2'' \<noteq> None \<and> ParseFloat exact_ops ''3'' \<noteq> None"
    by (simp add: exact_defs isDigit_def)
  with malformed_input_errors [of exact_ops] show ?thesis by blast
qed

section \<open>Arity of calls and the variadic functions\<close>




section \<open>Rounding of the money evaluator\<close>

text \<open>
  C1, as stated, fails at one pair of operands. For the dividend \<open>MinInt64\<close> and the
  divisor \<open>-1\<close> Go's quotient wraps, and \<open>divRound\<close> returns \<open>MinInt64\<close>, which is neither
  the truncated nor the rounded quotient \<open>2^63\<close>.
\<close>

theorem divRound_wraps_at_MinInt64:
  "divRound MinInt64 (- 1) = Inr MinInt64
   \<and> sint MinInt64 \<noteq> round_half_away (sint MinInt64) (sint (- 1 :: int64))
   \<and> sint MinInt64 \<noteq> sint MinInt64 sdiv sint (- 1 :: int64)"
  by (simp add: divRound_def quo64_def rem64_def MinInt64_def round_half_away_def
      signed_divide_int_def signed_modulo_int_def)

text \<open>
  C1, amended. For every dividend \<open>n\<close> and every nonzero divisor \<open>d\<close> other than the pair
  \<open>MinInt64\<close>, \<open>-1\<close>, \<open>divRound n d\<close> returns the truncated quotient adjusted by one away
  from zero exactly when twice the absolute remainder is at least the absolute divisor.
  This is the quotient rounded half away from zero: it is within half a divisor of the
  dividend, and at a tie it is the one of larger magnitude. A zero divisor is the error
  "division by zero". The money evaluator never passes the excluded pair: its divisors
  are \<open>moneyScale\<close>, \<open>percentScale\<close>, or follow a dividend that is a multiple of 100.
  \<open>1200%10\<close>, \<open>10/3\<close> and \<open>7.5%2\<close> evaluate to 12000, 333 and 15 cents.
\<close>

theorem divRound_rounds_half_away:
  "(d \<noteq> 0 \<and> \<not> (n = MinInt64 \<and> d = - 1) \<longrightarrow>
      (\<exists>q. divRound n d = Inr q
         \<and> sint q = sint n sdiv sint d
              + (if \<bar>sint d\<bar> \<le> 2 * \<bar>sint n smod sint d\<bar> then sgn (sint n) * sgn (sint d) else 0)
         \<and> sint q = round_half_away (sint n) (sint d)
         \<and> 2 * \<bar>sint q * sint d - sint n\<bar> \<le> \<bar>sint d\<bar>
         \<and> (2 * \<bar>sint q * sint d - sint n\<bar> = \<bar>sint d\<bar> \<longrightarrow> \<bar>sint n\<bar> < \<bar>sint q * sint d\<bar>)))
   \<and> divRound n 0 = Inl DivisionByZero
   \<and> moneyScale \<noteq> - 1 \<and> percentScale \<noteq> - 1 \<and> moneyScale \<noteq> 0 \<and> percentScale \<noteq> 0
   \<and> (mulInt64 a moneyScale = Inr num \<longrightarrow> num \<noteq> MinInt64)
   \<and> EvalMoneyExpression exact_ops ''1200%10'' = Inr 12000
   \<and> EvalMoneyExpression exact_ops ''10/3'' = Inr 333
   \<and> EvalMoneyExpression exact_ops ''7.5%2'' = Inr 15"
proof (intro conjI impI)
  assume h: "d \<noteq> 0 \<and> \<not> (n = MinInt64 \<and> d = - 1)"
  then have d: "d \<noteq> 0" and nd: "\<not> (n = MinInt64 \<and> d = - 1)" by simp_all
  have sd: "sint d \<noteq> 0" using d by (simp add: signed_eq_0_iff)
  from divRound_exact [OF d nd] obtain q
    where q: "divRound n d = Inr q" "sint q = round_half_away (sint n) (sint d)" by blast
  show "\<exists>q. divRound n d = Inr q
         \<and> sint q = sint n sdiv sint d
              + (if \<bar>sint d\<bar> \<le> 2 * \<bar>sint n smod sint d\<bar> then sgn (sint n) * sgn (sint d) else 0)
         \<and> sint q = round_half_away (sint n) (sint d)
         \<and> 2 * \<bar>sint q * sint d - sint n\<bar> \<le> \<bar>sint d\<bar>
         \<and> (2 * \<bar>sint q * sint d - sint n\<bar> = \<bar>sint d\<bar> \<longrightarrow> \<bar>sint n\<bar> < \<bar>sint q * sint d\<bar>)"
    using q rha_trunc [OF sd, of "sint n"] round_half_away_nearest [OF sd, of "sint n"]
    by auto
next
  show "divRound n 0 = Inl DivisionByZero" by (simp add: divRound_def)
  show "moneyScale \<noteq> - 1" by (simp add: moneyScale_def)
  show "percentScale \<noteq> - 1" by (simp add: percentScale_def)
  show "moneyScale \<noteq> 0" by (simp add: moneyScale_def)
  show "percentScale \<noteq> 0" by (simp add: percentScale_def)
next
  assume "mulInt64 a moneyScale = Inr num"
  then show "num \<noteq> MinInt64" by (rule mul_scale_not_min)
next
  show "EvalMoneyExpression exact_ops ''1200%10'' = Inr 12000"
    by (simp add: EvalMoneyExpression_def lexer_defs parser_defs exact_defs money_eval_defs)
  show "EvalMoneyExpression exact_ops ''10/3'' = Inr 333"
    by (simp add: EvalMoneyExpression_def lexer_defs parser_defs exact_defs money_eval_defs)
  show "EvalMoneyExpression exact_ops ''7.5%2'' = Inr 15"
    by (simp add: EvalMoneyExpression_def lexer_defs parser_defs exact_defs money_eval_defs)
qed

theorem divRound_rounds_half_away_witness:
  "(- 150 :: int64) \<noteq> 0 \<and> \<not> ((- 150 :: int64) = MinInt64 \<and> (100 :: int64) = - 1)
   \<and> divRound (- 150) 100 = Inr (- 2)
   \<and> sint (- 2 :: int64) = round_half_away (sint (- 150 :: int64)) (sint (100 :: int64))
   \<and> mulInt64 10 moneyScale = Inr 1000 \<and> (1000 :: int64) \<noteq> MinInt64"
proof -
  have h: "(100 :: int64) \<noteq> 0 \<and> \<not> ((- 150 :: int64) = MinInt64 \<and> (100 :: int64) = - 1)"
    by simp
  have m: "mulInt64 10 moneyScale = Inr 1000"
    by (simp add: mulInt64_exact moneyScale_def in_int64_def)
  have v: "divRound (- 150) 100 = Inr (- 2)"
    by (simp add: divRound_def quo64_def rem64_def absUint64_def Let_def
        signed_divide_int_def signed_modulo_int_def word_sless_alt word_sle_eq)
  from divRound_rounds_half_away [of 100 "- 150" 10 1000] h m v show ?thesis
    by (auto simp: MinInt64_def)
qed

section \<open>Overflow checks of the money evaluator\<close>

text \<open>
  C6. \<open>addInt64\<close>, \<open>subInt64\<close> and \<open>mulInt64\<close> return the exact sum, difference and
  product when it is in the signed 64-bit range, and their overflow error otherwise.
  The operators of the money evaluator built on them do the same: \<open>*\<close>, \<open>/\<close> and \<open>%\<close>
  return the exactly rounded quotient of the exact product, or the overflow error of
  the multiplication (or "division by zero"). \<open>NEG\<close> and \<open>abs\<close> fail with their overflow
  error on \<open>MinInt64\<close> and return the exact negation and absolute value otherwise.
  Expressions at the ends of the range show each error.
\<close>

theorem money_arithmetic_checked:
  "(if in_int64 (sint a + sint b)
    then \<exists>r. addInt64 a b = Inr r \<and> sint r = sint a + sint b
    else addInt64 a b = Inl OverflowAdd)
   \<and> (if in_int64 (sint a - sint b)
       then \<exists>r. subInt64 a b = Inr r \<and> sint r = sint a - sint b
       else subInt64 a b = Inl OverflowSub)
   \<and> (if in_int64 (sint a * sint b)
       then \<exists>r. mulInt64 a b = Inr r \<and> sint r = sint a * sint b
       else mulInt64 a b = Inl OverflowMul)
   \<and> money_binary ''+'' a b = addInt64 a b
   \<and> money_binary ''-'' a b = subInt64 a b
   \<and> (if in_int64 (sint a * sint b)
       then \<exists>r. money_binary ''*'' a b = Inr r \<and> sint r = round_half_away (sint a * sint b) 100
       else money_binary ''*'' a b = Inl OverflowMul)
   \<and> (if \<not> in_int64 (sint a * 100) then money_binary ''/'' a b = Inl OverflowMul
       else if b = 0 then money_binary ''/'' a b = Inl DivisionByZero
       else \<exists>r. money_binary ''/'' a b = Inr r \<and> sint r = round_half_away (sint a * 100) (sint b))
   \<and> (if in_int64 (sint a * sint b)
       then \<exists>r. money_binary ''%'' a b = Inr r \<and> sint r = round_half_away (sint a * sint b) 10000
       else money_binary ''%'' a b = Inl OverflowMul)
   \<and> (if a = MinInt64
       then money_TOp (a # st) \<lparr>Typ = TOp, Text = ''NEG'', Value = v, Arity = k\<rparr> = Inl OverflowNegate
       else \<exists>r. money_TOp (a # st) \<lparr>Typ = TOp, Text = ''NEG'', Value = v, Arity = k\<rparr> = Inr (r # st)
              \<and> sint r = - sint a)
   \<and> (if a = MinInt64
       then money_TFunc (a # st) \<lparr>Typ = TFunc, Text = ''abs'', Value = v, Arity = 1\<rparr> = Inl OverflowAbs
       else \<exists>r. money_TFunc (a # st) \<lparr>Typ = TFunc, Text = ''abs'', Value = v, Arity = 1\<rparr> = Inr (r # st)
              \<and> sint r = \<bar>sint a\<bar>)
   \<and> sint MinInt64 = - (2 ^ 63) \<and> sint MaxInt64 = 2 ^ 63 - 1
   \<and> EvalMoneyExpression exact_ops ''100000000000*100000000000'' = Inl OverflowMul
   \<and> EvalMoneyExpression exact_ops ''92233720368547758.07+0.01'' = Inl OverflowAdd
   \<and> EvalMoneyExpression exact_ops ''92233720368547758.07+0'' = Inr MaxInt64
   \<and> EvalMoneyExpression exact_ops ''(0-92233720368547758.07)-0.02'' = Inl OverflowSub
   \<and> EvalMoneyExpression exact_ops ''-(0-92233720368547758.07-0.01)'' = Inl OverflowNegate
   \<and> EvalMoneyExpression exact_ops ''abs(0-92233720368547758.07-0.01)'' = Inl OverflowAbs"
proof (intro conjI)
  show "if in_int64 (sint a + sint b)
    then \<exists>r. addInt64 a b = Inr r \<and> sint r = sint a + sint b
    else addInt64 a b = Inl OverflowAdd"
    by (rule addInt64_sint)
  show "if in_int64 (sint a - sint b)
       then \<exists>r. subInt64 a b = Inr r \<and> sint r = sint a - sint b
       else subInt64 a b = Inl OverflowSub"
    by (rule subInt64_sint)
  show "if in_int64 (sint a * sint b)
       then \<exists>r. mulInt64 a b = Inr r \<and> sint r = sint a * sint b
       else mulInt64 a b = Inl OverflowMul"
    by (rule mulInt64_sint)
  show "money_binary ''+'' a b = addInt64 a b" by (simp add: money_binary_def)
  show "money_binary ''-'' a b = subInt64 a b" by (simp add: money_binary_def)
  show "if in_int64 (sint a * sint b)
       then \<exists>r. money_binary ''*'' a b = Inr r \<and> sint r = round_half_away (sint a * sint b) 100
       else money_binary ''*'' a b = Inl OverflowMul"
    by (rule money_mul_sint)
  show "if \<not> in_int64 (sint a * 100) then money_binary ''/'' a b = Inl OverflowMul
       else if b = 0 then money_binary ''/'' a b = Inl DivisionByZero
       else \<exists>r. money_binary ''/'' a b = Inr r \<and> sint r = round_half_away (sint a * 100) (sint b)"
    by (rule money_div_sint)
  show "if in_int64 (sint a * sint b)
       then \<exists>r. money_binary ''%'' a b = Inr r \<and> sint r = round_half_away (sint a * sint b) 10000
       else money_binary ''%'' a b = Inl OverflowMul"
    by (rule money_percent_sint)
  show "if a = MinInt64
       then money_TOp (a # st) \<lparr>Typ = TOp, Text = ''NEG'', Value = v, Arity = k\<rparr> = Inl OverflowNegate
       else \<exists>r. money_TOp (a # st) \<lparr>Typ = TOp, Text = ''NEG'', Value = v, Arity = k\<rparr> = Inr (r # st)
              \<and> sint r = - sint a"
    by (simp add: money_neg_step sint_neg64)
  show "if a = MinInt64
       then money_TFunc (a # st) \<lparr>Typ = TFunc, Text = ''abs'', Value = v, Arity = 1\<rparr> = Inl OverflowAbs
       else \<exists>r. money_TFunc (a # st) \<lparr>Typ = TFunc, Text = ''abs'', Value = v, Arity = 1\<rparr> = Inr (r # st)
              \<and> sint r = \<bar>sint a\<bar>"
    by (simp add: money_abs_step sint_neg64 word_sless_alt)
  show "sint MinInt64 = - (2 ^ 63)" by (rule sint_MinInt64)
  show "sint MaxInt64 = 2 ^ 63 - 1" by (rule sint_MaxInt64)
  show "EvalMoneyExpression exact_ops ''100000000000*100000000000'' = Inl OverflowMul"
    by (simp add: EvalMoneyExpression_def lexer_defs parser_defs exact_defs money_eval_defs)
  show "EvalMoneyExpression exact_ops ''92233720368547758.07+0.01'' = Inl OverflowAdd"
    by (simp add: EvalMoneyExpression_def lexer_defs parser_defs exact_defs money_eval_defs)
  show "EvalMoneyExpression exact_ops ''92233720368547758.07+0'' = Inr MaxInt64"
    by (simp add: EvalMoneyExpression_def lexer_defs parser_defs exact_defs money_eval_defs MaxInt64_def)
  show "EvalMoneyExpression exact_ops ''(0-92233720368547758.07)-0.02'' = Inl OverflowSub"
    by (simp add: EvalMoneyExpression_def lexer_defs parser_defs exact_defs money_eval_defs)
  show "EvalMoneyExpression exact_ops ''-(0-92233720368547758.07-0.01)'' = Inl OverflowNegate"
    by (simp add: EvalMoneyExpression_def lexer_defs parser_defs exact_defs money_eval_defs MinInt64_def)
  show "EvalMoneyExpression exact_ops ''abs(0-92233720368547758.07-0.01)'' = Inl OverflowAbs"
    by (simp add: EvalMoneyExpression_def lexer_defs parser_defs exact_defs money_eval_defs MinInt64_def)
qed


section \<open>Literals of the money evaluator\<close>

text \<open>
  C7. In the money evaluator a Number token whose text is not a plain decimal literal
  (nonempty, only digits and at most one dot) fails with "non-numeric literal not
  supported"; the texts \<open>pi\<close> and \<open>e\<close> of the named constants and a text with an exponent
  such as \<open>1e2\<close> are of this kind. A plain decimal literal with more than two digits
  after the dot fails with "too many decimal places". Otherwise, with the digits \<open>w\<close>
  before the dot and \<open>f\<close> after it, the token pushes \<open>w * 100 + f\<close>, \<open>f\<close> padded on the right
  to two digits, when this is in the 64-bit range; when it is not, the parsing of \<open>w\<close>,
  the scaling by 100 or the addition fails with its own overflow error.
\<close>

theorem money_literals:
  "(Typ t = TNumber \<and> \<not> isNumericLiteral (Text t) \<longrightarrow>
      evalRPNMoney_step st t = Inl (NonNumericLiteral (Text t)))
   \<and> (isNumericLiteral txt \<longleftrightarrow>
        txt \<noteq> [] \<and> list_all (\<lambda>c. isDigit c \<or> c = CHR ''.'') txt \<and> Count_dot txt \<le> 1)
   \<and> \<not> isNumericLiteral ''pi'' \<and> \<not> isNumericLiteral ''e'' \<and> \<not> isNumericLiteral ''1e2''
   \<and> (Typ t = TNumber \<and> list_all isDigit w \<and> list_all isDigit f
        \<and> (Text t = w @ CHR ''.'' # f \<or> (Text t = w \<and> w \<noteq> [] \<and> f = [])) \<longrightarrow>
      evalRPNMoney_step st t =
        (if 2 < length f then Inl (TooManyDecimalPlaces (Text t))
         else if 2 ^ 63 \<le> digits_val w then Inl (InvalidMoneyNumberParse (Text t))
         else if 2 ^ 63 \<le> digits_val w * 100 then Inl (MoneyValueOverflow (Text t))
         else if 2 ^ 63 \<le> cents_of w f then Inl OverflowAdd
         else Inr (word_of_int (cents_of w f) # st))
      \<and> (cents_of w f < 2 ^ 63 \<longrightarrow> sint (word_of_int (cents_of w f) :: int64) = cents_of w f))
   \<and> cents_of w f = digits_val w * 100 + digits_val (take 2 (f @ ''00''))
   \<and> digits_val ''1200'' = 1200 \<and> cents_of ''12'' ''5'' = 1250 \<and> cents_of ''12'' ''05'' = 1205
   \<and> EvalMoneyExpression exact_ops ''1e2'' = Inl (NonNumericLiteral ''1e2'')
   \<and> EvalMoneyExpression exact_ops ''pi'' = Inl (NonNumericLiteral ''pi'')
   \<and> EvalMoneyExpression exact_ops ''1.234'' = Inl (TooManyDecimalPlaces ''1.234'')
   \<and> EvalMoneyExpression exact_ops ''12.5'' = Inr 1250
   \<and> EvalMoneyExpression exact_ops ''7'' = Inr 700
   \<and> EvalMoneyExpression exact_ops ''.5'' = Inr 50
   \<and> EvalMoneyExpression exact_ops ''3.'' = Inr 300
   \<and> EvalMoneyExpression exact_ops ''92233720368547758.07'' = Inr MaxInt64
   \<and> EvalMoneyExpression exact_ops ''92233720368547758.08'' = Inl OverflowAdd
   \<and> EvalMoneyExpression exact_ops ''92233720368547759''
       = Inl (MoneyValueOverflow ''92233720368547759'')
   \<and> EvalMoneyExpression exact_ops ''9223372036854775808''
       = Inl (InvalidMoneyNumberParse ''9223372036854775808'')"
proof (intro conjI impI)
  assume "Typ t = TNumber \<and> \<not> isNumericLiteral (Text t)"
  then show "evalRPNMoney_step st t = Inl (NonNumericLiteral (Text t))"
    by (simp add: evalRPNMoney_step_def)
next
  show "isNumericLiteral txt \<longleftrightarrow>
        txt \<noteq> [] \<and> list_all (\<lambda>c. isDigit c \<or> c = CHR ''.'') txt \<and> Count_dot txt \<le> 1"
    by (rule isNumericLiteral_iff)
  show "\<not> isNumericLiteral ''pi''" by (simp add: isNumericLiteral_iff isDigit_nat)
  show "\<not> isNumericLiteral ''e''" by (simp add: isNumericLiteral_iff isDigit_nat)
  show "\<not> isNumericLiteral ''1e2''" by (simp add: isNumericLiteral_iff isDigit_nat)
next
  assume a: "Typ t = TNumber \<and> list_all isDigit w \<and> list_all isDigit f
        \<and> (Text t = w @ CHR ''.'' # f \<or> (Text t = w \<and> w \<noteq> [] \<and> f = []))"
  then have w: "list_all isDigit w" and f: "list_all isDigit f" and ty: "Typ t = TNumber"
    by simp_all
  have W: "0 \<le> digits_val w" using w by (rule digits_val_nonneg)
  from a consider "Text t = w @ CHR ''.'' # f" | "Text t = w" "w \<noteq> []" "f = []" by blast
  then show "evalRPNMoney_step st t =
        (if 2 < length f then Inl (TooManyDecimalPlaces (Text t))
         else if 2 ^ 63 \<le> digits_val w then Inl (InvalidMoneyNumberParse (Text t))
         else if 2 ^ 63 \<le> digits_val w * 100 then Inl (MoneyValueOverflow (Text t))
         else if 2 ^ 63 \<le> cents_of w f then Inl OverflowAdd
         else Inr (word_of_int (cents_of w f) # st))"
  proof cases
    case 1
    have n: "isNumericLiteral (w @ CHR ''.'' # f)"
      using w f digits_no_dot [OF w] digits_no_dot [OF f]
      by (auto simp: isNumericLiteral_iff Count_dot_def list_all_iff)
    show ?thesis using ty n by (simp add: evalRPNMoney_step_def 1 parseCents_dot [OF w f])
  next
    case 2
    have n: "isNumericLiteral w"
      using w 2 digits_no_dot [OF w]
      by (auto simp: isNumericLiteral_iff Count_dot_def list_all_iff)
    show ?thesis using ty n 2 by (simp add: evalRPNMoney_step_def parseCents_nodot [OF w])
  qed
next
  assume a: "Typ t = TNumber \<and> list_all isDigit w \<and> list_all isDigit f
        \<and> (Text t = w @ CHR ''.'' # f \<or> (Text t = w \<and> w \<noteq> [] \<and> f = []))"
    and b: "cents_of w f < 2 ^ 63"
  have z: "isDigit CHR ''0''" by (simp add: isDigit_nat)
  have "list_all isDigit (take 2 (f @ ''00''))"
    using a z by (auto simp: list_all_iff dest!: in_set_takeD)
  then have "0 \<le> digits_val (take 2 (f @ ''00''))" by (rule digits_val_nonneg)
  moreover have "0 \<le> digits_val w" using a by (intro digits_val_nonneg) simp
  ultimately have "0 \<le> cents_of w f" by (simp add: cents_of_def)
  with b show "sint (word_of_int (cents_of w f) :: int64) = cents_of w f"
    by (intro sint_word_of_int64) simp_all
next
  show "cents_of w f = digits_val w * 100 + digits_val (take 2 (f @ ''00''))"
    by (simp add: cents_of_def)
  show "digits_val ''1200'' = 1200" by (simp add: digits_val_def digit_val_def)
  show "cents_of ''12'' ''5'' = 1250" by (simp add: cents_of_def digits_val_def digit_val_def)
  show "cents_of ''12'' ''05'' = 1205" by (simp add: cents_of_def digits_val_def digit_val_def)
  show "EvalMoneyExpression exact_ops ''1e2'' = Inl (NonNumericLiteral ''1e2'')"
    by (simp add: EvalMoneyExpression_def lexer_defs parser_defs exact_defs money_eval_defs)
  show "EvalMoneyExpression exact_ops ''pi'' = Inl (NonNumericLiteral ''pi'')"
    by (simp add: EvalMoneyExpression_def lexer_defs parser_defs exact_defs money_eval_defs)
  show "EvalMoneyExpression exact_ops ''1.234'' = Inl (TooManyDecimalPlaces ''1.234'')"
    by (simp add: EvalMoneyExpression_def lexer_defs parser_defs exact_defs money_eval_defs)
  show "EvalMoneyExpression exact_ops ''12.5'' = Inr 1250"
    by (simp add: EvalMoneyExpression_def lexer_defs parser_defs exact_defs money_eval_defs)
  show "EvalMoneyExpression exact_ops ''7'' = Inr 700"
    by (simp add: EvalMoneyExpression_def lexer_defs parser_defs exact_defs money_eval_defs)
  show "EvalMoneyExpression exact_ops ''.5'' = Inr 50"
    by (simp add: EvalMoneyExpression_def lexer_defs parser_defs exact_defs money_eval_defs)
  show "EvalMoneyExpression exact_ops ''3.'' = Inr 300"
    by (simp add: EvalMoneyExpression_def lexer_defs parser_defs exact_defs money_eval_defs)
  show "EvalMoneyExpression exact_ops ''92233720368547758.07'' = Inr MaxInt64"
    by (simp add: EvalMoneyExpression_def lexer_defs parser_defs exact_defs money_eval_defs MaxInt64_def)
  show "EvalMoneyExpression exact_ops ''92233720368547758.08'' = Inl OverflowAdd"
    by (simp add: EvalMoneyExpression_def lexer_defs parser_defs exact_defs money_eval_defs)
  show "EvalMoneyExpression exact_ops ''92233720368547759''
       = Inl (MoneyValueOverflow ''92233720368547759'')"
    by (simp add: EvalMoneyExpression_def lexer_defs parser_defs exact_defs money_eval_defs)
  show "EvalMoneyExpression exact_ops ''9223372036854775808''
       = Inl (InvalidMoneyNumberParse ''9223372036854775808'')"
    by (simp add: EvalMoneyExpression_def lexer_defs parser_defs exact_defs money_eval_defs)
qed

theorem money_literals_witness:
  "Typ (mk_token exact_ops TNumber ''12.5'') = TNumber
   \<and> list_all isDigit ''12'' \<and> list_all isDigit ''5''
   \<and> Text (mk_token exact_ops TNumber ''12.5'') = ''12'' @ CHR ''.'' # ''5''
   \<and> cents_of ''12'' ''5'' < 2 ^ 63
   \<and> evalRPNMoney_step [] (mk_token exact_ops TNumber ''12.5'') = Inr [1250]
   \<and> sint (1250 :: int64) = 1250
   \<and> \<not> isNumericLiteral (Text (mk_token exact_ops TNumber ''pi''))
   \<and> evalRPNMoney_step [] (mk_token exact_ops TNumber ''pi'') = Inl (NonNumericLiteral ''pi'')"
proof -
  have c: "cents_of ''12'' ''5'' = 1250"
    by (simp add: cents_of_def digits_val_def digit_val_def)
  have h1: "Typ (mk_token exact_ops TNumber ''12.5'') = TNumber
      \<and> list_all isDigit ''12'' \<and> list_all isDigit ''5''
      \<and> (Text (mk_token exact_ops TNumber ''12.5'') = ''12'' @ CHR ''.'' # ''5''
          \<or> (Text (mk_token exact_ops TNumber ''12.5'') = ''12'' \<and> ''12'' \<noteq> [] \<and> ''5'' = []))"
    by (simp add: mk_token_def isDigit_def)
  have h2: "Typ (mk_token exact_ops TNumber ''pi'') = TNumber
      \<and> \<not> isNumericLiteral (Text (mk_token exact_ops TNumber ''pi''))"
    by (simp add: mk_token_def isNumericLiteral_def ContainsAny_eE_def)
  from money_literals [of "mk_token exact_ops TNumber ''12.5''" "[]" "''x''" "''12''" "''5''"]
       money_literals [of "mk_token exact_ops TNumber ''pi''" "[]" "''x''" "''12''" "''5''"]
       h1 h2 c
  show ?thesis by (simp add: mk_token_def digits_val_def digit_val_def)
qed

section \<open>Named constants in the lexer\<close>

text \<open>
  C9, as stated, fails: the Number token of a named constant carries the lower-cased
  name, not the text of the source. For the input \<open>PI\<close> the text of the token is \<open>pi\<close>.
\<close>

theorem constant_token_text_is_folded:
  "tokenize exact_ops ''PI'' = Inr [\<lparr>Typ = TNumber, Text = ''pi'', Value = pi, Arity = 0\<rparr>]
   \<and> Text \<lparr>Typ = TNumber, Text = ''pi'', Value = pi, Arity = 0\<rparr> \<noteq> ''PI''"
  by (simp add: lexer_defs exact_ops_def)

text \<open>
  C9, amended. For every identifier of the input whose lower-cased form is in the table
  of constants, the lexer emits a Number token with the value of the constant and the
  lower-cased form of the identifier as its text. The table has the entries \<open>pi\<close> and
  \<open>e\<close>, so \<open>PI\<close>, \<open>Pi\<close> and \<open>pi\<close> all give the token with text \<open>pi\<close> and the value of pi.
\<close>

theorem constant_tokens:
  "(isIdentStart c \<and> list_all isIdentContinue cs \<and> (rest = [] \<or> \<not> isIdentContinue (hd rest))
      \<and> constants ops (ToLower (c # cs)) = Some v \<longrightarrow>
        tokenize_loop ops tokens (c # cs @ rest) =
          tokenize_loop ops
            (tokens @ [\<lparr>Typ = TNumber, Text = ToLower (c # cs), Value = v, Arity = 0\<rparr>]) rest)
   \<and> (constants ops name = Some v \<longleftrightarrow>
        (name = ''pi'' \<and> v = Pi ops) \<or> (name = ''e'' \<and> v = E ops))
   \<and> ToLower ''PI'' = ''pi'' \<and> ToLower ''Pi'' = ''pi'' \<and> ToLower ''pi'' = ''pi''
   \<and> ToLower ''E'' = ''e''
   \<and> tokenize ops ''PI'' = Inr [\<lparr>Typ = TNumber, Text = ''pi'', Value = Pi ops, Arity = 0\<rparr>]
   \<and> tokenize ops ''Pi'' = Inr [\<lparr>Typ = TNumber, Text = ''pi'', Value = Pi ops, Arity = 0\<rparr>]
   \<and> tokenize ops ''pi'' = Inr [\<lparr>Typ = TNumber, Text = ''pi'', Value = Pi ops, Arity = 0\<rparr>]
   \<and> tokenize ops ''E'' = Inr [\<lparr>Typ = TNumber, Text = ''e'', Value = E ops, Arity = 0\<rparr>]
   \<and> tokenize ops ''2*Pi'' =
       map_sum id (\<lambda>v2. [\<lparr>Typ = TNumber, Text = ''2'', Value = v2, Arity = 0\<rparr>,
                          \<lparr>Typ = TOp, Text = ''*'', Value = fzero ops, Arity = 0\<rparr>,
                          \<lparr>Typ = TNumber, Text = ''pi'', Value = Pi ops, Arity = 0\<rparr>])
         (case ParseFloat ops ''2'' of None \<Rightarrow> Inl (FailedToParseNumber ''2'') | Some v2 \<Rightarrow> Inr v2)"
proof (intro conjI impI)
  assume "isIdentStart c \<and> list_all isIdentContinue cs \<and> (rest = [] \<or> \<not> isIdentContinue (hd rest))
      \<and> constants ops (ToLower (c # cs)) = Some v"
  then show "tokenize_loop ops tokens (c # cs @ rest) =
          tokenize_loop ops
            (tokens @ [\<lparr>Typ = TNumber, Text = ToLower (c # cs), Value = v, Arity = 0\<rparr>]) rest"
    by (intro tokenize_constant) simp_all
next
  show "constants ops name = Some v \<longleftrightarrow>
        (name = ''pi'' \<and> v = Pi ops) \<or> (name = ''e'' \<and> v = E ops)"
    by (rule constants_iff)
  show "ToLower ''PI'' = ''pi''" by (simp add: ToLower_def lower_byte_def char_of_def bit_Suc_0_iff)
  show "ToLower ''Pi'' = ''pi''" by (simp add: ToLower_def lower_byte_def char_of_def bit_Suc_0_iff)
  show "ToLower ''pi'' = ''pi''" by (simp add: ToLower_def lower_byte_def char_of_def bit_Suc_0_iff)
  show "ToLower ''E'' = ''e''" by (simp add: ToLower_def lower_byte_def char_of_def bit_Suc_0_iff)
  show "tokenize ops ''PI'' = Inr [\<lparr>Typ = TNumber, Text = ''pi'', Value = Pi ops, Arity = 0\<rparr>]"
    by (simp add: lexer_defs)
  show "tokenize ops ''Pi'' = Inr [\<lparr>Typ = TNumber, Text = ''pi'', Value = Pi ops, Arity = 0\<rparr>]"
    by (simp add: lexer_defs)
  show "tokenize ops ''pi'' = Inr [\<lparr>Typ = TNumber, Text = ''pi'', Value = Pi ops, Arity = 0\<rparr>]"
    by (simp add: lexer_defs)
  show "tokenize ops ''E'' = Inr [\<lparr>Typ = TNumber, Text = ''e'', Value = E ops, Arity = 0\<rparr>]"
    by (simp add: lexer_defs)
  show "tokenize ops ''2*Pi'' =
       map_sum id (\<lambda>v2. [\<lparr>Typ = TNumber, Text = ''2'', Value = v2, Arity = 0\<rparr>,
                          \<lparr>Typ = TOp, Text = ''*'', Value = fzero ops, Arity = 0\<rparr>,
                          \<lparr>Typ = TNumber, Text = ''pi'', Value = Pi ops, Arity = 0\<rparr>])
         (case ParseFloat ops ''2'' of None \<Rightarrow> Inl (FailedToParseNumber ''2'') | Some v2 \<Rightarrow> Inr v2)"
    by (cases "ParseFloat ops ''2''") (simp_all add: lexer_defs)
qed

theorem constant_tokens_witness:
  "isIdentStart CHR ''P'' \<and> list_all isIdentContinue ''I''
   \<and> constants exact_ops (ToLower ''PI'') = Some pi
   \<and> tokenize_loop exact_ops [] ''PI+1''
     = tokenize_loop exact_ops [\<lparr>Typ = TNumber, Text = ''pi'', Value = pi, Arity = 0\<rparr>] ''+1''"
proof -
  have h: "isIdentStart CHR ''P'' \<and> list_all isIdentContinue ''I''
      \<and> (''+1'' = [] \<or> \<not> isIdentContinue (hd ''+1''))
      \<and> constants exact_ops (ToLower ''PI'') = Some pi"
    by (simp add: isIdentStart_def isIdentContinue_def isDigit_def constants_def ToLower_def
        lower_byte_def exact_ops_def char_of_def bit_Suc_0_iff)
  from constant_tokens [of "CHR ''P''" "''I''" "''+1''" exact_ops pi "[]"] h
  show ?thesis by (simp add: ToLower_def lower_byte_def char_of_def bit_Suc_0_iff)
qed

section \<open>Exponentiation in the money evaluator\<close>

text \<open>
  C10, as stated, fails: an expression whose postfix form contains \<open>^\<close> can fail with
  another error, raised before the evaluator reaches the operator. \<open>1.234^2\<close> fails with
  "too many decimal places", at its first token.
\<close>

theorem caret_after_bad_literal:
  "map_sum id (map Text) (case_sum Inl toRPN (tokenize exact_ops ''1.234^2''))
     = Inr [''1.234'', ''2'', ''^'']
   \<and> EvalMoneyExpression exact_ops ''1.234^2'' = Inl (TooManyDecimalPlaces ''1.234'')
   \<and> TooManyDecimalPlaces ''1.234'' \<noteq> OperatorNotSupported ''^''"
  by (simp add: EvalMoneyExpression_def lexer_defs parser_defs exact_defs money_eval_defs)

text \<open>
  C10, amended. The lexer accepts \<open>^\<close>, and the money evaluator never returns a number
  for a postfix sequence that contains the operator \<open>^\<close>: it returns the error of the
  first token that fails, which is "operator not supported" for \<open>^\<close> whenever the tokens
  before the first \<open>^\<close> evaluate without error, as in \<open>2^3\<close>.
\<close>

theorem caret_never_evaluates:
  "((\<exists>t\<in>set rpn. Typ t = TOp \<and> Text t = ''^'') \<longrightarrow> (\<exists>e. evalRPNMoney rpn = Inl e))
   \<and> (Typ t = TOp \<and> Text t = ''^'' \<longrightarrow>
        evalRPNMoney_step st t = Inl (OperatorNotSupported ''^'')
        \<and> evalRPNMoney (pre @ t # post) =
            (case money_steps [] pre of
               Inl err \<Rightarrow> Inl err
             | Inr st' \<Rightarrow> Inl (OperatorNotSupported ''^'')))
   \<and> isOpByte CHR ''^''
   \<and> EvalMoneyExpression exact_ops ''2^3'' = Inl (OperatorNotSupported ''^'')
   \<and> EvalExpression exact_ops ''2^3'' = Inr 8"
proof (intro conjI impI)
  assume "\<exists>t\<in>set rpn. Typ t = TOp \<and> Text t = ''^''"
  then show "\<exists>e. evalRPNMoney rpn = Inl e"
    unfolding evalRPNMoney_def by (rule money_loop_caret)
next
  assume a: "Typ t = TOp \<and> Text t = ''^''"
  then show "evalRPNMoney_step st t = Inl (OperatorNotSupported ''^'')"
    by (simp add: money_caret_step)
  from a have "evalRPNMoney_step s t = Inl (OperatorNotSupported ''^'')" for s
    by (simp add: money_caret_step)
  then show "evalRPNMoney (pre @ t # post) =
            (case money_steps [] pre of
               Inl err \<Rightarrow> Inl err
             | Inr st' \<Rightarrow> Inl (OperatorNotSupported ''^''))"
    by (simp add: evalRPNMoney_def money_loop_append split: sum.splits)
next
  show "isOpByte CHR ''^''" by (simp add: isOpByte_def)
  show "EvalMoneyExpression exact_ops ''2^3'' = Inl (OperatorNotSupported ''^'')"
    by (simp add: EvalMoneyExpression_def lexer_defs parser_defs exact_defs money_eval_defs)
  show "EvalExpression exact_ops ''2^3'' = Inr 8"
    by (simp add: EvalExpression_def lexer_defs parser_defs float_eval_defs exact_defs)
qed

theorem caret_never_evaluates_witness:
  "(\<exists>t\<in>set [mk_token exact_ops TNumber ''2'', mk_token exact_ops TNumber ''3'',
               mk_token exact_ops TOp ''^'']. Typ t = TOp \<and> Text t = ''^'')
   \<and> Typ (mk_token exact_ops TOp ''^'') = TOp \<and> Text (mk_token exact_ops TOp ''^'') = ''^''
   \<and> money_steps [] [mk_token exact_ops TNumber ''2'', mk_token exact_ops TNumber ''3'']
       = Inr [300, 200]
   \<and> evalRPNMoney [mk_token exact_ops TNumber ''2'', mk_token exact_ops TNumber ''3'',
                     mk_token exact_ops TOp ''^''] = Inl (OperatorNotSupported ''^'')"
proof -
  have m: "money_steps [] [mk_token exact_ops TNumber ''2'', mk_token exact_ops TNumber ''3'']
       = Inr [300, 200]"
    by (simp add: lexer_defs parser_defs exact_defs money_eval_defs)
  have h: "Typ (mk_token exact_ops TOp ''^'') = TOp \<and> Text (mk_token exact_ops TOp ''^'') = ''^''"
    by (simp add: mk_token_def)
  from caret_never_evaluates [of
      "[mk_token exact_ops TNumber ''2'', mk_token exact_ops TNumber ''3'', mk_token exact_ops TOp ''^'']"
      "mk_token exact_ops TOp ''^''" "[]"
      "[mk_token exact_ops TNumber ''2'', mk_token exact_ops TNumber ''3'']" "[]"] m h
  show ?thesis by simp
qed


end
